theory Spec2Isabelle
  imports Complex_Main "HOL-Library.Log_Nat"
begin

section \<open>Double-precision values\<close>

text \<open>
  A C++ \<^verbatim>\<open>double\<close> is a finite number, one of the two infinities, or a NaN.
  A finite value is kept as the real number it stands for. The sign of zero is left out
  of this model, so a quotient by zero takes the sign of its numerator (the divisor is
  read as \<^verbatim>\<open>+0.0\<close>). The special values follow IEEE 754:
  \<^verbatim>\<open>0.0 / 0.0\<close> and \<^verbatim>\<open>inf - inf\<close> are NaN, every operation on a NaN is a
  NaN, and every comparison with a NaN is false.
\<close>

datatype double = Finite real | PosInf | NegInf | NaN

fun dneg :: "double \<Rightarrow> double" where
  "dneg (Finite x) = Finite (- x)"
| "dneg PosInf = NegInf"
| "dneg NegInf = PosInf"
| "dneg NaN = NaN"

text \<open>The sign of an infinite product or quotient: positive when both signs agree.\<close>

definition signed_inf :: "bool \<Rightarrow> double" where
  "signed_inf positive = (if positive then PosInf else NegInf)"

text \<open>
  \<^verbatim>\<open>std::numeric_limits<double>::max()\<close>, the largest finite double, and
  \<^verbatim>\<open>lowest()\<close>, its negation. Neither is an infinity.
\<close>

definition DBL_MAX :: real where
  "DBL_MAX = (2 - 1 / 2 ^ 52) * 2 ^ 1023"

definition numeric_limits_max :: double where
  "numeric_limits_max = Finite DBL_MAX"

definition numeric_limits_lowest :: double where
  "numeric_limits_lowest = Finite (- DBL_MAX)"


subsection \<open>Rounding\<close>

text \<open>
  An arithmetic operator on doubles returns the double nearest to the exact result, the
  one with the even significand when two are equally near (IEEE 754 binary64 in the
  default rounding mode: 53 significant bits, exponents from \<open>-1022\<close> to \<open>1023\<close>,
  gradual underflow, and an infinity for a rounded magnitude above the largest finite
  double). \<open>binade x\<close> is the exponent \<open>e\<close> with \<open>2 ^ e \<le> \<bar>x\<bar> < 2 ^ (e + 1)\<close>, not
  taken below \<open>-1022\<close>, computed from the number of binary digits (\<open>bitlen\<close>) of
  the integer part of \<open>\<bar>x\<bar>\<close> or of its reciprocal; \<open>ulp x\<close> is the distance between
  neighbouring doubles of that exponent. Zero rounds to zero.
\<close>

definition binade :: "real \<Rightarrow> int" where
  "binade x =
     max (- 1022) (if 1 \<le> \<bar>x\<bar> then bitlen \<lfloor>\<bar>x\<bar>\<rfloor> - 1 else - bitlen (\<lceil>1 / \<bar>x\<bar>\<rceil> - 1))"

definition ulp :: "real \<Rightarrow> real" where
  "ulp x = 2 powi (binade x - 52)"

definition round_ties_even :: "real \<Rightarrow> int" where
  "round_ties_even m =
     (if m - of_int \<lfloor>m\<rfloor> < 1 / 2 then \<lfloor>m\<rfloor>
      else if 1 / 2 < m - of_int \<lfloor>m\<rfloor> then \<lfloor>m\<rfloor> + 1
      else if even \<lfloor>m\<rfloor> then \<lfloor>m\<rfloor> else \<lfloor>m\<rfloor> + 1)"

definition round_double :: "real \<Rightarrow> double" where
  "round_double x =
     (if DBL_MAX < \<bar>of_int (round_ties_even (x / ulp x)) * ulp x\<bar> then signed_inf (0 < x)
      else Finite (of_int (round_ties_even (x / ulp x)) * ulp x))"

fun rounded :: "double \<Rightarrow> double" where
  "rounded (Finite x) = round_double x"
| "rounded d = d"


subsection \<open>Arithmetic\<close>

text \<open>The exact sum, product and quotient of two doubles, before rounding.\<close>

fun exact_add :: "double \<Rightarrow> double \<Rightarrow> double" where
  "exact_add (Finite x) (Finite y) = Finite (x + y)"
| "exact_add NaN b = NaN"
| "exact_add a NaN = NaN"
| "exact_add PosInf NegInf = NaN"
| "exact_add NegInf PosInf = NaN"
| "exact_add PosInf b = PosInf"
| "exact_add a PosInf = PosInf"
| "exact_add NegInf b = NegInf"
| "exact_add a NegInf = NegInf"

definition exact_sub :: "double \<Rightarrow> double \<Rightarrow> double" where
  "exact_sub a b = exact_add a (dneg b)"

fun exact_mul :: "double \<Rightarrow> double \<Rightarrow> double" where
  "exact_mul (Finite x) (Finite y) = Finite (x * y)"
| "exact_mul NaN b = NaN"
| "exact_mul a NaN = NaN"
| "exact_mul (Finite x) PosInf = (if x = 0 then NaN else signed_inf (0 < x))"
| "exact_mul (Finite x) NegInf = (if x = 0 then NaN else signed_inf (x < 0))"
| "exact_mul PosInf (Finite y) = (if y = 0 then NaN else signed_inf (0 < y))"
| "exact_mul NegInf (Finite y) = (if y = 0 then NaN else signed_inf (y < 0))"
| "exact_mul PosInf PosInf = PosInf"
| "exact_mul NegInf NegInf = PosInf"
| "exact_mul PosInf NegInf = NegInf"
| "exact_mul NegInf PosInf = NegInf"

fun exact_div :: "double \<Rightarrow> double \<Rightarrow> double" where
  "exact_div (Finite x) (Finite y) =
     (if y = 0 then (if x = 0 then NaN else signed_inf (0 < x)) else Finite (x / y))"
| "exact_div NaN b = NaN"
| "exact_div a NaN = NaN"
| "exact_div (Finite x) PosInf = Finite 0"
| "exact_div (Finite x) NegInf = Finite 0"
| "exact_div PosInf (Finite y) = signed_inf (0 \<le> y)"
| "exact_div NegInf (Finite y) = signed_inf (y < 0)"
| "exact_div PosInf b = NaN"
| "exact_div NegInf b = NaN"

text \<open>
  The operators \<^verbatim>\<open>+\<close>, \<^verbatim>\<open>-\<close>, \<^verbatim>\<open>*\<close> and \<^verbatim>\<open>/\<close> of the code on
  doubles: the exact result, rounded.
\<close>

definition dadd :: "double \<Rightarrow> double \<Rightarrow> double" where
  "dadd a b = rounded (exact_add a b)"

definition dsub :: "double \<Rightarrow> double \<Rightarrow> double" where
  "dsub a b = rounded (exact_sub a b)"

definition dmul :: "double \<Rightarrow> double \<Rightarrow> double" where
  "dmul a b = rounded (exact_mul a b)"

definition ddiv :: "double \<Rightarrow> double \<Rightarrow> double" where
  "ddiv a b = rounded (exact_div a b)"

fun dless :: "double \<Rightarrow> double \<Rightarrow> bool" where
  "dless (Finite x) (Finite y) = (x < y)"
| "dless NaN b = False"
| "dless a NaN = False"
| "dless NegInf NegInf = False"
| "dless NegInf b = True"
| "dless a NegInf = False"
| "dless PosInf b = False"
| "dless a PosInf = True"

text \<open>\<^verbatim>\<open>std::min(a, b)\<close> is \<^verbatim>\<open>(b < a) ? b : a\<close>.\<close>

definition dmin :: "double \<Rightarrow> double \<Rightarrow> double" where
  "dmin a b = (if dless b a then b else a)"

text \<open>\<^verbatim>\<open>std::ceil\<close> is exact: the ceiling of a double is a double.\<close>

fun dceil :: "double \<Rightarrow> double" where
  "dceil (Finite x) = Finite (of_int \<lceil>x\<rceil>)"
| "dceil d = d"

text \<open>\<^verbatim>\<open>static_cast<double>(n)\<close> of an unsigned integer rounds as the operators do.\<close>

definition double_of_nat :: "nat \<Rightarrow> double" where
  "double_of_nat n = round_double (real n)"

text \<open>
  \<^verbatim>\<open>static_cast<size_t>(d)\<close> truncates towards zero; the behaviour is undefined
  (here: no value) when the truncated value is not a 64-bit unsigned number, so for
  every \<^verbatim>\<open>d \<le> -1\<close>, every \<^verbatim>\<open>d \<ge> 2^64\<close>, the infinities and NaN.
\<close>

definition size_t_of_double :: "double \<Rightarrow> nat option" where
  "size_t_of_double d =
     (case d of
        Finite x \<Rightarrow>
          if - 1 < x \<and> x < 2 ^ 64 then Some (if 0 \<le> x then nat \<lfloor>x\<rfloor> else 0) else None
      | PosInf \<Rightarrow> None
      | NegInf \<Rightarrow> None
      | NaN \<Rightarrow> None)"

definition kMaxVelocity :: double where
  "kMaxVelocity = Finite 100"

definition kMaxAcceleration :: double where
  "kMaxAcceleration = Finite 100"

definition kMaxJerk :: double where
  "kMaxJerk = Finite 100"


section \<open>The data model\<close>

text \<open>
  What can go wrong in the source, as values: a failed \<^verbatim>\<open>assert\<close>, a null
  pointer that is dereferenced, the exception of \<^verbatim>\<open>GetJointByName\<close> for an
  unknown joint, the exception of \<^verbatim>\<open>getVariablePosition\<close> for an unknown
  variable, a vector index out of range, element \<^verbatim>\<open>[0]\<close> of an empty bounds
  vector, the undefined conversion of a double to \<^verbatim>\<open>size_t\<close>, and the
  invalid-argument failure of the first-order-hold constructor.
\<close>

datatype error =
    AssertionFailed
  | NullPointer
  | JointNotFound string
  | VariableNotFound string
  | IndexOutOfRange
  | NoVariableBounds
  | UndefinedConversion
  | InvalidArgument

text \<open>
  Modelled from the spec: the motion group of the planning layer, an ordered list of
  active joints, each with a name and its variable bounds, which carry a flag, a minimum
  and a maximum for position, velocity, acceleration and jerk. The robot model finds a
  group by its name, or finds none.
\<close>

record VariableBounds =
  min_position :: double
  max_position :: double
  position_bounded :: bool
  min_velocity :: double
  max_velocity :: double
  velocity_bounded :: bool
  min_acceleration :: double
  max_acceleration :: double
  acceleration_bounded :: bool
  min_jerk :: double
  max_jerk :: double
  jerk_bounded :: bool

record JointModel =
  joint_name :: string
  variable_bounds :: "VariableBounds list"

record JointModelGroup =
  group_name :: string
  active_joint_models :: "JointModel list"

record RobotModel =
  joint_model_groups :: "string \<rightharpoonup> JointModelGroup"

text \<open>
  Modelled from the spec: the named-joint state of a waypoint, a position and a velocity
  per variable. A single-DOF joint has one variable, named as the joint; reading a
  variable the state does not hold is the exception of \<^verbatim>\<open>getVariablePosition\<close>.
  A freshly constructed state has no value set.
\<close>

record RobotState =
  robot_model :: RobotModel
  variable_position :: "string \<rightharpoonup> double"
  variable_velocity :: "string \<rightharpoonup> double"

text \<open>
  Modelled from the spec: the dense vector space of the dynamics model, as far as this
  code reads it: the capacities and \<^verbatim>\<open>GetJointByName(name).ordinal()\<close>, which
  throws for an unknown name.
\<close>

record MultibodyPlant =
  num_positions :: nat
  num_velocities :: nat
  num_accelerations :: nat
  joint_ordinal :: "string \<rightharpoonup> nat"


section \<open>Packing a named-joint state into a dense vector\<close>

text \<open>
  The loop over the active joints of \<^verbatim>\<open>getJointPositionVector\<close> and
  \<^verbatim>\<open>getJointVelocityVector\<close>; \<open>var\<close> is the state's accessor
  (\<^verbatim>\<open>getVariablePosition\<close> or \<^verbatim>\<open>getVariableVelocity\<close>). Writing a
  vector entry outside the vector is an error.
\<close>

fun pack_joints ::
  "(string \<rightharpoonup> double) \<Rightarrow> MultibodyPlant \<Rightarrow> JointModel list \<Rightarrow> double list \<Rightarrow> error + double list"
where
  "pack_joints var plant [] v = Inr v"
| "pack_joints var plant (j # js) v =
     (case joint_ordinal plant (joint_name j) of
        None \<Rightarrow> Inl (JointNotFound (joint_name j))
      | Some joint_index \<Rightarrow>
          (case var (joint_name j) of
             None \<Rightarrow> Inl (VariableNotFound (joint_name j))
           | Some x \<Rightarrow>
               if joint_index < length v
               then pack_joints var plant js (v[joint_index := x])
               else Inl IndexOutOfRange))"

text \<open>
  The two pack functions. The group is looked up by name in the state's robot model
  (a null pointer when the model has no such group), and the \<^verbatim>\<open>assert\<close> on the
  capacity is kept as a check, as in a build that does not define \<^verbatim>\<open>NDEBUG\<close>.
  Pointer and reference parameters are taken to point to objects.
\<close>

definition getJointPositionVector ::
  "RobotState \<Rightarrow> string \<Rightarrow> MultibodyPlant \<Rightarrow> error + double list"
where
  "getJointPositionVector moveit_state gname plant =
     (case joint_model_groups (robot_model moveit_state) gname of
        None \<Rightarrow> Inl NullPointer
      | Some joint_model_group \<Rightarrow>
          if length (active_joint_models joint_model_group) \<le> num_positions plant
          then pack_joints (variable_position moveit_state) plant
                 (active_joint_models joint_model_group)
                 (replicate (num_positions plant) (Finite 0))
          else Inl AssertionFailed)"

definition getJointVelocityVector ::
  "RobotState \<Rightarrow> string \<Rightarrow> MultibodyPlant \<Rightarrow> error + double list"
where
  "getJointVelocityVector moveit_state gname plant =
     (case joint_model_groups (robot_model moveit_state) gname of
        None \<Rightarrow> Inl NullPointer
      | Some joint_model_group \<Rightarrow>
          if length (active_joint_models joint_model_group) \<le> num_velocities plant
          then pack_joints (variable_velocity moveit_state) plant
                 (active_joint_models joint_model_group)
                 (replicate (num_velocities plant) (Finite 0))
          else Inl AssertionFailed)"


section \<open>Bound vectors\<close>

text \<open>
  The loop over the active joints that the four bound extractors share word for word;
  they differ in the flag and the two limits they read from the joint's first variable
  bounds (\<^verbatim>\<open>getVariableBounds()[0]\<close>: single-DOF joints are assumed).
\<close>

fun bounds_joints ::
  "(VariableBounds \<Rightarrow> bool) \<Rightarrow> (VariableBounds \<Rightarrow> double) \<Rightarrow> (VariableBounds \<Rightarrow> double) \<Rightarrow>
   MultibodyPlant \<Rightarrow> JointModel list \<Rightarrow> double list \<times> double list \<Rightarrow>
   error + double list \<times> double list"
where
  "bounds_joints bounded lo hi plant [] (lower, upper) = Inr (lower, upper)"
| "bounds_joints bounded lo hi plant (j # js) (lower, upper) =
     (case variable_bounds j of
        [] \<Rightarrow> Inl NoVariableBounds
      | bounds # others \<Rightarrow>
          (case joint_ordinal plant (joint_name j) of
             None \<Rightarrow> Inl (JointNotFound (joint_name j))
           | Some joint_index \<Rightarrow>
               if bounded bounds
               then (if joint_index < length lower \<and> joint_index < length upper
                     then bounds_joints bounded lo hi plant js
                            (lower[joint_index := lo bounds], upper[joint_index := hi bounds])
                     else Inl IndexOutOfRange)
               else bounds_joints bounded lo hi plant js (lower, upper)))"

definition getPositionBounds ::
  "JointModelGroup \<Rightarrow> MultibodyPlant \<Rightarrow> error + double list \<times> double list"
where
  "getPositionBounds joint_model_group plant =
     (if length (active_joint_models joint_model_group) \<le> num_positions plant
      then bounds_joints position_bounded min_position max_position plant
             (active_joint_models joint_model_group)
             (replicate (num_positions plant) numeric_limits_lowest,
              replicate (num_positions plant) numeric_limits_max)
      else Inl AssertionFailed)"

definition getVelocityBounds ::
  "JointModelGroup \<Rightarrow> MultibodyPlant \<Rightarrow> error + double list \<times> double list"
where
  "getVelocityBounds joint_model_group plant =
     (if length (active_joint_models joint_model_group) \<le> num_velocities plant
      then bounds_joints velocity_bounded min_velocity max_velocity plant
             (active_joint_models joint_model_group)
             (replicate (num_velocities plant) (dneg kMaxVelocity),
              replicate (num_velocities plant) kMaxVelocity)
      else Inl AssertionFailed)"

text \<open>The assertion reads \<^verbatim>\<open>num_accelerations()\<close>; the vectors have \<^verbatim>\<open>num_velocities()\<close> entries.\<close>

definition getAccelerationBounds ::
  "JointModelGroup \<Rightarrow> MultibodyPlant \<Rightarrow> error + double list \<times> double list"
where
  "getAccelerationBounds joint_model_group plant =
     (if length (active_joint_models joint_model_group) \<le> num_accelerations plant
      then bounds_joints acceleration_bounded min_acceleration max_acceleration plant
             (active_joint_models joint_model_group)
             (replicate (num_velocities plant) (dneg kMaxAcceleration),
              replicate (num_velocities plant) kMaxAcceleration)
      else Inl AssertionFailed)"

definition getJerkBounds ::
  "JointModelGroup \<Rightarrow> MultibodyPlant \<Rightarrow> error + double list \<times> double list"
where
  "getJerkBounds joint_model_group plant =
     (if length (active_joint_models joint_model_group) \<le> num_velocities plant
      then bounds_joints jerk_bounded min_jerk max_jerk plant
             (active_joint_models joint_model_group)
             (replicate (num_velocities plant) (dneg kMaxJerk),
              replicate (num_velocities plant) kMaxJerk)
      else Inl AssertionFailed)"


section \<open>Trajectories\<close>

text \<open>
  Modelled from the spec: the waypoint container of the motion-planning layer (waypoint
  count, waypoint by index, elapsed time by index, clear, append with duration). Each
  waypoint is stored with the duration since the waypoint before it; the elapsed time
  from the start is the running sum of these durations. The group pointer may be null.
\<close>

record RobotTrajectory =
  traj_robot_model :: RobotModel
  traj_group :: "JointModelGroup option"
  waypoints :: "(RobotState \<times> double) list"

definition getWayPointCount :: "RobotTrajectory \<Rightarrow> nat" where
  "getWayPointCount rt = length (waypoints rt)"

definition getWayPoint :: "RobotTrajectory \<Rightarrow> nat \<Rightarrow> RobotState" where
  "getWayPoint rt i = fst (waypoints rt ! i)"

definition getWayPointDurationFromStart :: "RobotTrajectory \<Rightarrow> nat \<Rightarrow> double" where
  "getWayPointDurationFromStart rt i =
     foldl dadd (Finite 0) (map snd (take (Suc i) (waypoints rt)))"

definition clear :: "RobotTrajectory \<Rightarrow> RobotTrajectory" where
  "clear rt = rt\<lparr>waypoints := []\<rparr>"

definition addSuffixWayPoint :: "RobotTrajectory \<Rightarrow> RobotState \<Rightarrow> double \<Rightarrow> RobotTrajectory" where
  "addSuffixWayPoint rt state dt = rt\<lparr>waypoints := waypoints rt @ [(state, dt)]\<rparr>"

text \<open>
  Modelled from the spec: the continuous trajectory of the optimization layer, as this
  code reads it: its end time, its value at a time and its first derivative at a time,
  both dense vectors.
\<close>

record Trajectory =
  end_time :: double
  traj_value :: "double \<Rightarrow> double list"
  EvalDerivative :: "double \<Rightarrow> double list"


subsection \<open>Fitting\<close>

text \<open>
  The loop of \<^verbatim>\<open>getPiecewisePolynomial\<close> over the waypoint indices: each
  waypoint's packed positions become a sample, its elapsed time a break.
\<close>

fun fit_waypoints ::
  "RobotTrajectory \<Rightarrow> string \<Rightarrow> MultibodyPlant \<Rightarrow> nat list \<Rightarrow> double list \<times> double list list \<Rightarrow>
   error + double list \<times> double list list"
where
  "fit_waypoints rt gname plant [] (breaks, samples) = Inr (breaks, samples)"
| "fit_waypoints rt gname plant (i # later) (breaks, samples) =
     (case getJointPositionVector (getWayPoint rt i) gname plant of
        Inl e \<Rightarrow> Inl e
      | Inr v \<Rightarrow>
          fit_waypoints rt gname plant later
            (breaks @ [getWayPointDurationFromStart rt i], samples @ [v]))"

text \<open>
  The first-order-hold constructor belongs to the optimization layer; the fitter takes
  it as the parameter \<open>first_order_hold\<close> and returns what it returns. The call of
  the code is the instance with \<open>FirstOrderHold\<close>, defined next.
\<close>

definition getPiecewisePolynomial ::
  "(double list \<Rightarrow> double list list \<Rightarrow> error + Trajectory) \<Rightarrow>
   RobotTrajectory \<Rightarrow> JointModelGroup \<Rightarrow> MultibodyPlant \<Rightarrow> error + Trajectory"
where
  "getPiecewisePolynomial first_order_hold robot_trajectory grp plant =
     (case fit_waypoints robot_trajectory (group_name grp) plant
             [0 ..< getWayPointCount robot_trajectory] ([], []) of
        Inl e \<Rightarrow> Inl e
      | Inr (breaks, samples) \<Rightarrow> first_order_hold breaks samples)"


subsection \<open>First-order hold\<close>

text \<open>
  Modelled from the spec: the first-order-hold constructor and the evaluator it
  produces. Fewer than two breaks or breaks that are not strictly increasing are
  invalid input. Between two adjacent breaks \<open>t0 < t1\<close> with samples \<open>s0\<close>, \<open>s1\<close> the
  position at \<open>t\<close> is \<open>s0 + (t - t0) / (t1 - t0) * (s1 - s0)\<close> and the derivative is
  \<open>(s1 - s0) / (t1 - t0)\<close>; the end time is the final break. A time at an inner break
  is evaluated in the segment that starts there, a time outside all segments in the
  last one. The two formulas are evaluated as the spec writes them, over the reals,
  without rounding.
\<close>

fun strictly_increasing :: "double list \<Rightarrow> bool" where
  "strictly_increasing (a # b # ts) = (dless a b \<and> strictly_increasing (b # ts))"
| "strictly_increasing ts = True"

fun foh_segment ::
  "double list \<Rightarrow> double list list \<Rightarrow> double \<Rightarrow> (double \<times> double \<times> double list \<times> double list) option"
where
  "foh_segment (t0 # t1 # ts) (s0 # s1 # ss) t =
     (if dless t t1 then Some (t0, t1, s0, s1)
      else if ts = [] then Some (t0, t1, s0, s1)
      else foh_segment (t1 # ts) (s1 # ss) t)"
| "foh_segment ts ss t = None"

definition interpolate :: "double \<Rightarrow> double \<Rightarrow> double \<Rightarrow> double \<Rightarrow> double \<Rightarrow> double" where
  "interpolate t0 t1 t s0 s1 =
     exact_add s0 (exact_mul (exact_div (exact_sub t t0) (exact_sub t1 t0)) (exact_sub s1 s0))"

definition slope :: "double \<Rightarrow> double \<Rightarrow> double \<Rightarrow> double \<Rightarrow> double" where
  "slope t0 t1 s0 s1 = exact_div (exact_sub s1 s0) (exact_sub t1 t0)"

definition foh_value :: "double list \<Rightarrow> double list list \<Rightarrow> double \<Rightarrow> double list" where
  "foh_value breaks samples t =
     (case foh_segment breaks samples t of
        None \<Rightarrow> []
      | Some (t0, t1, s0, s1) \<Rightarrow> map2 (interpolate t0 t1 t) s0 s1)"

definition foh_derivative :: "double list \<Rightarrow> double list list \<Rightarrow> double \<Rightarrow> double list" where
  "foh_derivative breaks samples t =
     (case foh_segment breaks samples t of
        None \<Rightarrow> []
      | Some (t0, t1, s0, s1) \<Rightarrow> map2 (slope t0 t1) s0 s1)"

definition FirstOrderHold :: "double list \<Rightarrow> double list list \<Rightarrow> error + Trajectory" where
  "FirstOrderHold breaks samples =
     (if length breaks < 2 then Inl InvalidArgument
      else if strictly_increasing breaks
      then Inr \<lparr>end_time = last breaks,
                traj_value = foh_value breaks samples,
                EvalDerivative = foh_derivative breaks samples\<rparr>
      else Inl InvalidArgument)"


subsection \<open>Resampling\<close>

text \<open>
  A state as \<^verbatim>\<open>RobotState(robot_model)\<close> constructs it: no variable has a value yet.
\<close>

definition new_RobotState :: "RobotModel \<Rightarrow> RobotState" where
  "new_RobotState m = \<lparr>robot_model = m, variable_position = Map.empty, variable_velocity = Map.empty\<rparr>"

text \<open>
  The inner loop of \<^verbatim>\<open>getRobotTrajectory\<close>: for every active joint the entries of
  the position and the derivative vector at the joint's ordinal are written to the
  waypoint (one value per joint: single-DOF joints).
\<close>

fun set_joint_values ::
  "MultibodyPlant \<Rightarrow> double list \<Rightarrow> double list \<Rightarrow> JointModel list \<Rightarrow> RobotState \<Rightarrow> error + RobotState"
where
  "set_joint_values plant pos_val vel_val [] waypoint = Inr waypoint"
| "set_joint_values plant pos_val vel_val (j # js) waypoint =
     (case joint_ordinal plant (joint_name j) of
        None \<Rightarrow> Inl (JointNotFound (joint_name j))
      | Some joint_index \<Rightarrow>
          if joint_index < length pos_val
          then (if joint_index < length vel_val
                then set_joint_values plant pos_val vel_val js
                       (waypoint\<lparr>variable_position :=
                                   (variable_position waypoint)(joint_name j \<mapsto> pos_val ! joint_index),
                                 variable_velocity :=
                                   (variable_velocity waypoint)(joint_name j \<mapsto> vel_val ! joint_index)\<rparr>)
                else Inl IndexOutOfRange)
          else Inl IndexOutOfRange)"

text \<open>
  Line 218: \<^verbatim>\<open>static_cast<size_t>(std::ceil(end_time / delta_t) + 1)\<close>.
\<close>

definition num_pts_of :: "double \<Rightarrow> double \<Rightarrow> nat option" where
  "num_pts_of end_t delta_t = size_t_of_double (dadd (dceil (ddiv end_t delta_t)) (Finite 1))"

text \<open>
  Lines 223 and 224. \<^verbatim>\<open>num_pts - 1\<close> is computed in \<^verbatim>\<open>size_t\<close> (64 bits
  wide), so it wraps at zero; the quotient is not guarded.
\<close>

definition t_scale_of :: "nat \<Rightarrow> nat \<Rightarrow> double" where
  "t_scale_of num_pts i = ddiv (double_of_nat i) (double_of_nat ((num_pts + 2 ^ 64 - 1) mod 2 ^ 64))"

definition sample_time :: "double \<Rightarrow> nat \<Rightarrow> nat \<Rightarrow> double" where
  "sample_time end_t num_pts i = dmul (dmin (t_scale_of num_pts i) (Finite 1)) end_t"

text \<open>
  The sampling loop. Its counter is an \<^verbatim>\<open>unsigned int\<close> (32 bits) compared with
  the 64-bit \<^verbatim>\<open>num_pts\<close>: the increment wraps at \<open>2 ^ 32\<close>, and the loop need not
  end. The result is the status (an error, or none on a normal return) and the output
  trajectory as the call leaves it; no result stands for a loop that never ends.
\<close>

partial_function (option) resample_loop ::
  "Trajectory \<Rightarrow> MultibodyPlant \<Rightarrow> JointModel list \<Rightarrow> nat \<Rightarrow> nat \<Rightarrow> double \<Rightarrow> RobotTrajectory \<Rightarrow>
   (error option \<times> RobotTrajectory) option"
where
  "resample_loop tr plant active_joints num_pts i t_prev rt =
     (if i < num_pts
      then (case set_joint_values plant
                   (traj_value tr (sample_time (end_time tr) num_pts i))
                   (EvalDerivative tr (sample_time (end_time tr) num_pts i))
                   active_joints (new_RobotState (traj_robot_model rt)) of
              Inl e \<Rightarrow> Some (Some e, rt)
            | Inr waypoint \<Rightarrow>
                resample_loop tr plant active_joints num_pts ((i + 1) mod 2 ^ 32)
                  (sample_time (end_time tr) num_pts i)
                  (addSuffixWayPoint rt waypoint
                     (dsub (sample_time (end_time tr) num_pts i) t_prev)))
      else Some (None, rt))"

definition getRobotTrajectory ::
  "Trajectory \<Rightarrow> double \<Rightarrow> MultibodyPlant \<Rightarrow> RobotTrajectory \<Rightarrow> (error option \<times> RobotTrajectory) option"
where
  "getRobotTrajectory drake_trajectory delta_t plant moveit_trajectory =
     (case num_pts_of (end_time drake_trajectory) delta_t of
        None \<Rightarrow> Some (Some UndefinedConversion, clear moveit_trajectory)
      | Some num_pts \<Rightarrow>
          (case traj_group (clear moveit_trajectory) of
             None \<Rightarrow> Some (Some NullPointer, clear moveit_trajectory)
           | Some grp \<Rightarrow>
               resample_loop drake_trajectory plant (active_joint_models grp) num_pts 0
                 (Finite 0) (clear moveit_trajectory)))"


section \<open>Replacing mesh file extensions\<close>

text \<open>
  \<^verbatim>\<open>std::string::find(needle, pos)\<close>: the lowest index from \<open>pos\<close> on at which
  \<open>needle\<close> occurs, if any. \<^verbatim>\<open>std::string::replace(pos, len, r)\<close>: the \<open>len\<close>
  characters from \<open>pos\<close> on give way to \<open>r\<close>.
\<close>

definition string_find :: "string \<Rightarrow> string \<Rightarrow> nat \<Rightarrow> nat option" where
  "string_find s needle pos =
     (if length s < length needle then None
      else List.find (\<lambda>p. take (length needle) (drop p s) = needle)
             [pos ..< Suc (length s - length needle)])"

definition string_replace :: "string \<Rightarrow> nat \<Rightarrow> nat \<Rightarrow> string \<Rightarrow> string" where
  "string_replace s pos len r = take pos s @ r @ drop (pos + len) s"

text \<open>
  What a successful find returns, needed to see that the loops below end: the index is
  not before the start position, the needle fits at it, occurs at it, and occurs nowhere
  between the start position and it.
\<close>

lemma string_find_Some:
  assumes "string_find s needle pos = Some p"
  shows "pos \<le> p \<and> p + length needle \<le> length s \<and> take (length needle) (drop p s) = needle \<and>
         (\<forall>q. pos \<le> q \<and> q < p \<longrightarrow> take (length needle) (drop q s) \<noteq> needle)"
proof -
  let ?P = "\<lambda>p. take (length needle) (drop p s) = needle"
  define hi where "hi = Suc (length s - length needle)"
  from assms have len: "length needle \<le> length s" and f: "List.find ?P [pos ..< hi] = Some p"
    by (auto simp: string_find_def hi_def split: if_splits)
  from f obtain i where i: "i < length [pos ..< hi]" "?P ([pos ..< hi] ! i)" "p = [pos ..< hi] ! i"
    "\<forall>j<i. \<not> ?P ([pos ..< hi] ! j)"
    unfolding find_Some_iff by blast
  have ih: "pos + i < hi" using i(1) by simp
  have p: "p = pos + i" using i(3) ih by simp
  have b: "p + length needle \<le> length s" using p ih len by (simp add: hi_def)
  have "\<forall>q. pos \<le> q \<and> q < p \<longrightarrow> \<not> ?P q"
  proof (intro allI impI)
    fix q assume q: "pos \<le> q \<and> q < p"
    then have lt: "q - pos < i" using p by arith
    with i(4) have "\<not> ?P ([pos ..< hi] ! (q - pos))" by blast
    moreover have "[pos ..< hi] ! (q - pos) = q" using q lt ih by simp
    ultimately show "\<not> ?P q" by simp
  qed
  moreover have "?P p" using i(2,3) by simp
  ultimately show ?thesis using p b by simp
qed

lemma length_string_replace:
  "pos + len \<le> length s \<Longrightarrow> length (string_replace s pos len r) = length s - len + length r"
  by (simp add: string_replace_def)

text \<open>
  The two loops of \<^verbatim>\<open>replaceSTLWithOBJ\<close>: the first replaces \<^verbatim>\<open>.stl\<close>, the
  second \<^verbatim>\<open>.STL\<close>; each continues the search after the text it has put in.
\<close>

function replace_lower :: "string \<Rightarrow> nat \<Rightarrow> string" where
  "replace_lower result pos =
     (case string_find result ''.stl'' pos of
        None \<Rightarrow> result
      | Some p \<Rightarrow>
          replace_lower (string_replace result p (length ''.stl'') ''.obj'') (p + length ''.obj''))"
  by pat_completeness auto
termination
proof (relation "measure (\<lambda>(result, pos). Suc (length result) - pos)")
  show "wf (measure (\<lambda>(result, pos). Suc (length result) - pos))" by simp
next
  fix result pos p
  assume "string_find result ''.stl'' pos = Some p"
  from string_find_Some[OF this] have "pos \<le> p" "p + 4 \<le> length result" by simp_all
  then show "((string_replace result p (length ''.stl'') ''.obj'', p + length ''.obj''), (result, pos))
              \<in> measure (\<lambda>(result, pos). Suc (length result) - pos)"
    by (simp add: length_string_replace)
qed

function replace_upper :: "string \<Rightarrow> nat \<Rightarrow> string" where
  "replace_upper result pos =
     (case string_find result ''.STL'' pos of
        None \<Rightarrow> result
      | Some p \<Rightarrow>
          replace_upper (string_replace result p (length ''.STL'') ''.obj'') (p + length ''.obj''))"
  by pat_completeness auto
termination
proof (relation "measure (\<lambda>(result, pos). Suc (length result) - pos)")
  show "wf (measure (\<lambda>(result, pos). Suc (length result) - pos))" by simp
next
  fix result pos p
  assume "string_find result ''.STL'' pos = Some p"
  from string_find_Some[OF this] have "pos \<le> p" "p + 4 \<le> length result" by simp_all
  then show "((string_replace result p (length ''.STL'') ''.obj'', p + length ''.obj''), (result, pos))
              \<in> measure (\<lambda>(result, pos). Suc (length result) - pos)"
    by (simp add: length_string_replace)
qed

declare replace_lower.simps [simp del] replace_upper.simps [simp del]

definition replaceSTLWithOBJ :: "string \<Rightarrow> string" where
  "replaceSTLWithOBJ input = replace_upper (replace_lower input 0) 0"

text \<open>
  The claimed result, written from the claim's words: one pass over the input from the
  left that puts \<^verbatim>\<open>.obj\<close> for every occurrence of \<^verbatim>\<open>.stl\<close> or \<^verbatim>\<open>.STL\<close> and
  copies every other character.
\<close>

fun replace_extensions :: "string \<Rightarrow> string" where
  "replace_extensions [] = []"
| "replace_extensions (c # cs) =
     (if take 4 (c # cs) = ''.stl'' then ''.obj'' @ replace_extensions (drop 3 cs)
      else if take 4 (c # cs) = ''.STL'' then ''.obj'' @ replace_extensions (drop 3 cs)
      else c # replace_extensions cs)"

text \<open>
  One pass for a single needle, the link between a loop and the claimed result.
\<close>

fun subst_all :: "string \<Rightarrow> string \<Rightarrow> string" where
  "subst_all needle [] = []"
| "subst_all needle (c # cs) =
     (if take (length needle) (c # cs) = needle
      then ''.obj'' @ subst_all needle (drop (length needle - 1) cs)
      else c # subst_all needle cs)"


section \<open>Consistent pairings and an example robot\<close>

text \<open>
  A motion group and a dense vector space are consistent for a capacity when the
  capacity is at least the number of active joints, every active joint's name resolves
  to an ordinal below the capacity, and no two active joints share an ordinal.
\<close>

definition consistent :: "JointModel list \<Rightarrow> MultibodyPlant \<Rightarrow> nat \<Rightarrow> bool" where
  "consistent js plant capacity =
     (length js \<le> capacity \<and>
      list_all (\<lambda>j. case joint_ordinal plant (joint_name j) of None \<Rightarrow> False | Some k \<Rightarrow> k < capacity) js \<and>
      distinct (map (\<lambda>j. joint_ordinal plant (joint_name j)) js))"

text \<open>The ordinals that the active joints of a group are mapped to.\<close>

definition mapped_ordinals :: "MultibodyPlant \<Rightarrow> JointModelGroup \<Rightarrow> nat option list" where
  "mapped_ordinals plant g = map (\<lambda>j. joint_ordinal plant (joint_name j)) (active_joint_models g)"

text \<open>
  A two-joint arm in a space of three ordinals: the shoulder at ordinal 2, the elbow at
  ordinal 0, ordinal 1 unused. Each joint declares limits for all four quantities, with
  the position and acceleration flags set on the shoulder only and the velocity and jerk
  flags on the elbow only.
\<close>

definition shoulder_bounds :: VariableBounds where
  "shoulder_bounds =
     \<lparr>min_position = Finite (- 1), max_position = Finite 1, position_bounded = True,
      min_velocity = Finite (- 2), max_velocity = Finite 2, velocity_bounded = False,
      min_acceleration = Finite (- 3), max_acceleration = Finite 3, acceleration_bounded = True,
      min_jerk = Finite (- 4), max_jerk = Finite 4, jerk_bounded = False\<rparr>"

definition elbow_bounds :: VariableBounds where
  "elbow_bounds =
     \<lparr>min_position = Finite (- 5), max_position = Finite 5, position_bounded = False,
      min_velocity = Finite (- 6), max_velocity = Finite 6, velocity_bounded = True,
      min_acceleration = Finite (- 7), max_acceleration = Finite 7, acceleration_bounded = False,
      min_jerk = Finite (- 8), max_jerk = Finite 8, jerk_bounded = True\<rparr>"

definition shoulder :: JointModel where
  "shoulder = \<lparr>joint_name = ''shoulder'', variable_bounds = [shoulder_bounds]\<rparr>"

definition elbow :: JointModel where
  "elbow = \<lparr>joint_name = ''elbow'', variable_bounds = [elbow_bounds]\<rparr>"

definition arm :: JointModelGroup where
  "arm = \<lparr>group_name = ''arm'', active_joint_models = [shoulder, elbow]\<rparr>"

definition arm_model :: RobotModel where
  "arm_model = \<lparr>joint_model_groups = [''arm'' \<mapsto> arm]\<rparr>"

definition arm_plant :: MultibodyPlant where
  "arm_plant = \<lparr>num_positions = 3, num_velocities = 3, num_accelerations = 3,
                joint_ordinal = [''shoulder'' \<mapsto> 2, ''elbow'' \<mapsto> 0]\<rparr>"

definition arm_state :: RobotState where
  "arm_state = \<lparr>robot_model = arm_model,
                variable_position = [''shoulder'' \<mapsto> Finite 5, ''elbow'' \<mapsto> Finite 7, ''wrist'' \<mapsto> Finite 9],
                variable_velocity = [''shoulder'' \<mapsto> Finite 1, ''elbow'' \<mapsto> Finite (- 1), ''wrist'' \<mapsto> Finite 4]\<rparr>"

text \<open>
  The bounds a joint contributes: the first entry of its variable bounds.
\<close>

definition first_bounds :: "JointModel \<Rightarrow> VariableBounds" where
  "first_bounds j = hd (variable_bounds j)"

text \<open>
  Two joints agree on one quantity when they have the same name and their first
  variable bounds carry the same flag, minimum and maximum for that quantity.
\<close>

definition same_limits ::
  "(VariableBounds \<Rightarrow> bool) \<Rightarrow> (VariableBounds \<Rightarrow> double) \<Rightarrow> (VariableBounds \<Rightarrow> double) \<Rightarrow>
   JointModel \<Rightarrow> JointModel \<Rightarrow> bool"
where
  "same_limits bounded lo hi j j' =
     (joint_name j = joint_name j' \<and>
      (case variable_bounds j of
         [] \<Rightarrow> variable_bounds j' = []
       | b # bs \<Rightarrow>
           (case variable_bounds j' of
              [] \<Rightarrow> False
            | b' # bs' \<Rightarrow> bounded b = bounded b' \<and> lo b = lo b' \<and> hi b = hi b')))"

text \<open>
  The example arm with other velocity, acceleration and jerk declarations, and the
  position declarations left as they are.
\<close>

definition arm_retuned :: JointModelGroup where
  "arm_retuned =
     \<lparr>group_name = ''arm'',
      active_joint_models =
        [shoulder\<lparr>variable_bounds :=
            [shoulder_bounds\<lparr>min_velocity := Finite (- 9), max_velocity := Finite 9, velocity_bounded := True,
                             acceleration_bounded := False, jerk_bounded := True\<rparr>]\<rparr>,
         elbow\<lparr>variable_bounds :=
            [elbow_bounds\<lparr>velocity_bounded := False, min_acceleration := NegInf, max_jerk := NaN\<rparr>]\<rparr>]\<rparr>"


text \<open>
  The resampler can unpack every sample of a continuous trajectory when each active
  joint's name resolves to an ordinal that lies within the position vector and within
  the derivative vector the trajectory returns, at every time.
\<close>

definition unpack_defined :: "Trajectory \<Rightarrow> MultibodyPlant \<Rightarrow> JointModel list \<Rightarrow> bool" where
  "unpack_defined tr plant js =
     (\<forall>t. list_all (\<lambda>j. case joint_ordinal plant (joint_name j) of
                            None \<Rightarrow> False
                          | Some k \<Rightarrow> k < length (traj_value tr t) \<and> k < length (EvalDerivative tr t)) js)"

text \<open>
  A motion-plan trajectory can be packed when the pairing is consistent for the
  position capacity and every waypoint's state knows the group and holds a position
  for each of its active joints.
\<close>

definition packable :: "RobotTrajectory \<Rightarrow> JointModelGroup \<Rightarrow> MultibodyPlant \<Rightarrow> bool" where
  "packable rt g plant =
     (consistent (active_joint_models g) plant (num_positions plant) \<and>
      list_all (\<lambda>w. joint_model_groups (robot_model (fst w)) (group_name g) = Some g \<and>
                     list_all (\<lambda>j. variable_position (fst w) (joint_name j) \<noteq> None) (active_joint_models g))
        (waypoints rt))"

text \<open>
  Example inputs: a continuous trajectory over three ordinals whose position at time
  \<open>t\<close> is \<open>t\<close> at every ordinal, up to a given end time; an output trajectory for the
  arm that still holds one old waypoint; the waypoint sampled from the ramp at a NaN time;
  a motion plan of a single waypoint; and a motion plan of two waypoints, the second
  appended with duration 0, so that both have the elapsed time 1.
\<close>

definition ramp :: "real \<Rightarrow> Trajectory" where
  "ramp e = \<lparr>end_time = Finite e, traj_value = (\<lambda>t. [t, t, t]),
             EvalDerivative = (\<lambda>t. [Finite 1, Finite 1, Finite 1])\<rparr>"

definition arm_output :: RobotTrajectory where
  "arm_output = \<lparr>traj_robot_model = arm_model, traj_group = Some arm,
                 waypoints = [(arm_state, Finite 3)]\<rparr>"

definition nan_sample :: RobotState where
  "nan_sample = \<lparr>robot_model = arm_model,
                 variable_position = [''shoulder'' \<mapsto> NaN, ''elbow'' \<mapsto> NaN],
                 variable_velocity = [''shoulder'' \<mapsto> Finite 1, ''elbow'' \<mapsto> Finite 1]\<rparr>"

definition single_point :: RobotTrajectory where
  "single_point = \<lparr>traj_robot_model = arm_model, traj_group = Some arm,
                   waypoints = [(arm_state, Finite 0)]\<rparr>"

definition stalled :: RobotTrajectory where
  "stalled = \<lparr>traj_robot_model = arm_model, traj_group = Some arm,
               waypoints = [(arm_state, Finite 1), (arm_state, Finite 0)]\<rparr>"

text \<open>
  A motion plan of two waypoints for the arm: both joints at position 0 at time 0 and at
  position 2 at time 2. \<open>fitted\<close> is the first-order hold through them, \<open>moving x\<close> the
  state with both joints at position \<open>x\<close> and velocity 1.
\<close>

definition posed :: "real \<Rightarrow> RobotState" where
  "posed x = \<lparr>robot_model = arm_model,
              variable_position = [''shoulder'' \<mapsto> Finite x, ''elbow'' \<mapsto> Finite x],
              variable_velocity = [''shoulder'' \<mapsto> Finite 0, ''elbow'' \<mapsto> Finite 0]\<rparr>"

definition moving :: "real \<Rightarrow> RobotState" where
  "moving x = \<lparr>robot_model = arm_model,
               variable_position = [''shoulder'' \<mapsto> Finite x, ''elbow'' \<mapsto> Finite x],
               variable_velocity = [''shoulder'' \<mapsto> Finite 1, ''elbow'' \<mapsto> Finite 1]\<rparr>"

definition two_point :: RobotTrajectory where
  "two_point = \<lparr>traj_robot_model = arm_model, traj_group = Some arm,
                waypoints = [(posed 0, Finite 0), (posed 2, Finite 2)]\<rparr>"

definition fitted :: Trajectory where
  "fitted = \<lparr>end_time = Finite 2,
             traj_value = foh_value [Finite 0, Finite 2]
                            [[Finite 0, Finite 0, Finite 0], [Finite 2, Finite 0, Finite 2]],
             EvalDerivative = foh_derivative [Finite 0, Finite 2]
                            [[Finite 0, Finite 0, Finite 0], [Finite 2, Finite 0, Finite 2]]\<rparr>"


section \<open>Packing and unpacking\<close>

lemma consistent_ordinal:
  assumes "consistent js plant n" "j \<in> set js"
  obtains k where "joint_ordinal plant (joint_name j) = Some k" "k < n"
  using assms by (auto simp: consistent_def list_all_iff split: option.splits)

lemma pack_joints_result:
  assumes "\<forall>j\<in>set js. \<exists>k x. joint_ordinal plant (joint_name j) = Some k \<and> k < length v \<and> var (joint_name j) = Some x"
  shows "\<exists>v'. pack_joints var plant js v = Inr v' \<and> length v' = length v \<and>
           (\<forall>k. Some k \<notin> set (map (\<lambda>j. joint_ordinal plant (joint_name j)) js) \<longrightarrow> v' ! k = v ! k) \<and>
           (distinct (map (\<lambda>j. joint_ordinal plant (joint_name j)) js) \<longrightarrow>
              (\<forall>j\<in>set js. \<forall>k. joint_ordinal plant (joint_name j) = Some k \<longrightarrow> Some (v' ! k) = var (joint_name j)))"
  using assms
proof (induction js arbitrary: v)
  case Nil
  then show ?case by simp
next
  case (Cons j js)
  from Cons.prems obtain k x where
    k: "joint_ordinal plant (joint_name j) = Some k" "k < length v" and x: "var (joint_name j) = Some x"
    by auto
  let ?v1 = "v[k := x]"
  have "\<forall>j\<in>set js. \<exists>k x. joint_ordinal plant (joint_name j) = Some k \<and> k < length ?v1 \<and> var (joint_name j) = Some x"
    using Cons.prems by simp
  from Cons.IH[OF this] obtain v' where
    r: "pack_joints var plant js ?v1 = Inr v'" and len: "length v' = length ?v1"
    and keep: "\<And>k'. Some k' \<notin> set (map (\<lambda>j. joint_ordinal plant (joint_name j)) js) \<Longrightarrow> v' ! k' = ?v1 ! k'"
    and hit: "distinct (map (\<lambda>j. joint_ordinal plant (joint_name j)) js) \<Longrightarrow>
              (\<forall>j\<in>set js. \<forall>k. joint_ordinal plant (joint_name j) = Some k \<longrightarrow> Some (v' ! k) = var (joint_name j))"
    by blast
  have "pack_joints var plant (j # js) v = Inr v'"
    using k x r by simp
  moreover have "length v' = length v" using len by simp
  moreover have "\<forall>k'. Some k' \<notin> set (map (\<lambda>j. joint_ordinal plant (joint_name j)) (j # js)) \<longrightarrow> v' ! k' = v ! k'"
    using keep k by auto
  moreover have "distinct (map (\<lambda>j. joint_ordinal plant (joint_name j)) (j # js)) \<longrightarrow>
              (\<forall>j'\<in>set (j # js). \<forall>k. joint_ordinal plant (joint_name j') = Some k \<longrightarrow> Some (v' ! k) = var (joint_name j'))"
  proof (intro impI ballI allI)
    fix j' k'
    assume d: "distinct (map (\<lambda>j. joint_ordinal plant (joint_name j)) (j # js))"
      and j': "j' \<in> set (j # js)" and k': "joint_ordinal plant (joint_name j') = Some k'"
    show "Some (v' ! k') = var (joint_name j')"
    proof (cases "j' \<in> set js")
      case True
      then show ?thesis using hit d k' by simp
    next
      case False
      then have e: "j' = j" using j' by simp
      then have "k' = k" using k k' by simp
      moreover have "Some k \<notin> set (map (\<lambda>j. joint_ordinal plant (joint_name j)) js)"
        using d k by auto
      ultimately show ?thesis using keep[of k] k x e by simp
    qed
  qed
  ultimately show ?case by blast
qed

lemma set_joint_values_result:
  assumes "\<forall>j\<in>set js. \<exists>k. joint_ordinal plant (joint_name j) = Some k \<and> k < length pv \<and> k < length vv"
  shows "\<exists>wp'. set_joint_values plant pv vv js wp = Inr wp' \<and> robot_model wp' = robot_model wp \<and>
           variable_position wp' =
             (\<lambda>n. if n \<in> joint_name ` set js then map_option ((!) pv) (joint_ordinal plant n)
                  else variable_position wp n) \<and>
           variable_velocity wp' =
             (\<lambda>n. if n \<in> joint_name ` set js then map_option ((!) vv) (joint_ordinal plant n)
                  else variable_velocity wp n)"
  using assms
proof (induction js arbitrary: wp)
  case Nil
  then show ?case by simp
next
  case (Cons j js)
  from Cons.prems obtain k where
    k: "joint_ordinal plant (joint_name j) = Some k" "k < length pv" "k < length vv"
    by auto
  let ?wp1 = "wp\<lparr>variable_position := (variable_position wp)(joint_name j \<mapsto> pv ! k),
                 variable_velocity := (variable_velocity wp)(joint_name j \<mapsto> vv ! k)\<rparr>"
  have "\<forall>j\<in>set js. \<exists>k. joint_ordinal plant (joint_name j) = Some k \<and> k < length pv \<and> k < length vv"
    using Cons.prems by simp
  from Cons.IH[OF this, of ?wp1] obtain wp' where
    r: "set_joint_values plant pv vv js ?wp1 = Inr wp'" and m: "robot_model wp' = robot_model ?wp1"
    and p: "variable_position wp' =
             (\<lambda>n. if n \<in> joint_name ` set js then map_option ((!) pv) (joint_ordinal plant n)
                  else variable_position ?wp1 n)"
    and v: "variable_velocity wp' =
             (\<lambda>n. if n \<in> joint_name ` set js then map_option ((!) vv) (joint_ordinal plant n)
                  else variable_velocity ?wp1 n)"
    by blast
  have "set_joint_values plant pv vv (j # js) wp = Inr wp'"
    using k r by simp
  moreover have "robot_model wp' = robot_model wp" using m by simp
  moreover have "variable_position wp' =
             (\<lambda>n. if n \<in> joint_name ` set (j # js) then map_option ((!) pv) (joint_ordinal plant n)
                  else variable_position wp n)"
    unfolding p using k by (auto simp: fun_eq_iff)
  moreover have "variable_velocity wp' =
             (\<lambda>n. if n \<in> joint_name ` set (j # js) then map_option ((!) vv) (joint_ordinal plant n)
                  else variable_velocity wp n)"
    unfolding v using k by (auto simp: fun_eq_iff)
  ultimately show ?case by blast
qed

lemma pack_vector:
  assumes cons: "consistent js plant (length v)"
    and vals: "list_all (\<lambda>j. var (joint_name j) \<noteq> None) js"
  shows "\<exists>v'. pack_joints var plant js v = Inr v' \<and> length v' = length v \<and>
           (\<forall>j\<in>set js. \<exists>k. joint_ordinal plant (joint_name j) = Some k \<and> k < length v \<and>
                           Some (v' ! k) = var (joint_name j)) \<and>
           (\<forall>k. Some k \<notin> set (map (\<lambda>j. joint_ordinal plant (joint_name j)) js) \<longrightarrow> v' ! k = v ! k)"
proof -
  have pre: "\<forall>j\<in>set js. \<exists>k x. joint_ordinal plant (joint_name j) = Some k \<and> k < length v \<and> var (joint_name j) = Some x"
  proof
    fix j assume j: "j \<in> set js"
    from consistent_ordinal[OF cons j] obtain k where "joint_ordinal plant (joint_name j) = Some k" "k < length v" .
    moreover from vals j obtain x where "var (joint_name j) = Some x" by (auto simp: list_all_iff)
    ultimately show "\<exists>k x. joint_ordinal plant (joint_name j) = Some k \<and> k < length v \<and> var (joint_name j) = Some x"
      by blast
  qed
  have d: "distinct (map (\<lambda>j. joint_ordinal plant (joint_name j)) js)"
    using cons by (simp add: consistent_def)
  from pack_joints_result[OF pre] obtain v' where
    r: "pack_joints var plant js v = Inr v'" "length v' = length v"
    and keep: "\<forall>k. Some k \<notin> set (map (\<lambda>j. joint_ordinal plant (joint_name j)) js) \<longrightarrow> v' ! k = v ! k"
    and hit: "\<forall>j\<in>set js. \<forall>k. joint_ordinal plant (joint_name j) = Some k \<longrightarrow> Some (v' ! k) = var (joint_name j)"
    using d by blast
  have "\<forall>j\<in>set js. \<exists>k. joint_ordinal plant (joint_name j) = Some k \<and> k < length v \<and>
                           Some (v' ! k) = var (joint_name j)"
    using pre hit by blast
  then show ?thesis using r keep by blast
qed

lemma getJointVector_result:
  assumes grp: "joint_model_groups (robot_model st) gname = Some g"
    and cp: "consistent (active_joint_models g) plant (num_positions plant)"
    and cv: "consistent (active_joint_models g) plant (num_velocities plant)"
    and vals: "list_all (\<lambda>j. variable_position st (joint_name j) \<noteq> None \<and>
                             variable_velocity st (joint_name j) \<noteq> None) (active_joint_models g)"
  shows "\<exists>p v. getJointPositionVector st gname plant = Inr p \<and>
               getJointVelocityVector st gname plant = Inr v \<and>
               length p = num_positions plant \<and> length v = num_velocities plant \<and>
               (\<forall>j\<in>set (active_joint_models g).
                  \<exists>k. joint_ordinal plant (joint_name j) = Some k \<and>
                      k < num_positions plant \<and> k < num_velocities plant \<and>
                      Some (p ! k) = variable_position st (joint_name j) \<and>
                      Some (v ! k) = variable_velocity st (joint_name j)) \<and>
               (\<forall>k < num_positions plant. Some k \<notin> set (mapped_ordinals plant g) \<longrightarrow> p ! k = Finite 0) \<and>
               (\<forall>k < num_velocities plant. Some k \<notin> set (mapped_ordinals plant g) \<longrightarrow> v ! k = Finite 0)"
proof -
  let ?js = "active_joint_models g"
  have lp: "length ?js \<le> num_positions plant" and lv: "length ?js \<le> num_velocities plant"
    using cp cv by (simp_all add: consistent_def)
  have vp: "list_all (\<lambda>j. variable_position st (joint_name j) \<noteq> None) ?js"
    and vv: "list_all (\<lambda>j. variable_velocity st (joint_name j) \<noteq> None) ?js"
    using vals by (simp_all add: list_all_iff)
  from pack_vector[of ?js plant "replicate (num_positions plant) (Finite 0)" "variable_position st"] cp vp
  obtain p where p: "pack_joints (variable_position st) plant ?js (replicate (num_positions plant) (Finite 0)) = Inr p"
    "length p = num_positions plant"
    and php: "\<forall>j\<in>set ?js. \<exists>k. joint_ordinal plant (joint_name j) = Some k \<and> k < num_positions plant \<and>
                           Some (p ! k) = variable_position st (joint_name j)"
    and pk: "\<forall>k. Some k \<notin> set (map (\<lambda>j. joint_ordinal plant (joint_name j)) ?js) \<longrightarrow>
                 p ! k = replicate (num_positions plant) (Finite 0) ! k"
    by auto
  from pack_vector[of ?js plant "replicate (num_velocities plant) (Finite 0)" "variable_velocity st"] cv vv
  obtain v where v: "pack_joints (variable_velocity st) plant ?js (replicate (num_velocities plant) (Finite 0)) = Inr v"
    "length v = num_velocities plant"
    and vhp: "\<forall>j\<in>set ?js. \<exists>k. joint_ordinal plant (joint_name j) = Some k \<and> k < num_velocities plant \<and>
                           Some (v ! k) = variable_velocity st (joint_name j)"
    and vk: "\<forall>k. Some k \<notin> set (map (\<lambda>j. joint_ordinal plant (joint_name j)) ?js) \<longrightarrow>
                 v ! k = replicate (num_velocities plant) (Finite 0) ! k"
    by auto
  have "getJointPositionVector st gname plant = Inr p"
    using grp lp p by (simp add: getJointPositionVector_def)
  moreover have "getJointVelocityVector st gname plant = Inr v"
    using grp lv v by (simp add: getJointVelocityVector_def)
  moreover have "\<forall>j\<in>set ?js. \<exists>k. joint_ordinal plant (joint_name j) = Some k \<and>
                      k < num_positions plant \<and> k < num_velocities plant \<and>
                      Some (p ! k) = variable_position st (joint_name j) \<and>
                      Some (v ! k) = variable_velocity st (joint_name j)"
    using php vhp by fastforce
  moreover have "\<forall>k < num_positions plant. Some k \<notin> set (mapped_ordinals plant g) \<longrightarrow> p ! k = Finite 0"
    using pk by (simp add: mapped_ordinals_def)
  moreover have "\<forall>k < num_velocities plant. Some k \<notin> set (mapped_ordinals plant g) \<longrightarrow> v ! k = Finite 0"
    using vk by (simp add: mapped_ordinals_def)
  ultimately show ?thesis using p(2) v(2) by blast
qed

lemma unpack_then_pack:
  assumes cons: "consistent js plant (length v0)" and n: "length w = length v0"
    and var: "\<forall>j\<in>set js. var (joint_name j) = map_option ((!) w) (joint_ordinal plant (joint_name j))"
  shows "pack_joints var plant js (replicate (length v0) (Finite 0)) =
           Inr (map (\<lambda>k. if Some k \<in> set (map (\<lambda>j. joint_ordinal plant (joint_name j)) js) then w ! k else Finite 0)
                  [0 ..< length v0])"
proof -
  let ?z = "replicate (length v0) (Finite 0)"
  have c: "consistent js plant (length ?z)" using cons by simp
  have vals: "list_all (\<lambda>j. var (joint_name j) \<noteq> None) js"
    unfolding list_all_iff
  proof
    fix j assume j: "j \<in> set js"
    from consistent_ordinal[OF cons j] obtain k where "joint_ordinal plant (joint_name j) = Some k" .
    then show "var (joint_name j) \<noteq> None" using var j by simp
  qed
  from pack_vector[OF c vals] obtain v' where
    r: "pack_joints var plant js ?z = Inr v'" and len: "length v' = length v0"
    and hit: "\<forall>j\<in>set js. \<exists>k. joint_ordinal plant (joint_name j) = Some k \<and> k < length ?z \<and>
                           Some (v' ! k) = var (joint_name j)"
    and keep: "\<forall>k. Some k \<notin> set (map (\<lambda>j. joint_ordinal plant (joint_name j)) js) \<longrightarrow> v' ! k = ?z ! k"
    by auto
  have "v' = map (\<lambda>k. if Some k \<in> set (map (\<lambda>j. joint_ordinal plant (joint_name j)) js) then w ! k else Finite 0)
                  [0 ..< length v0]"
  proof (rule nth_equalityI)
    show "length v' = length (map (\<lambda>k. if Some k \<in> set (map (\<lambda>j. joint_ordinal plant (joint_name j)) js) then w ! k else Finite 0)
                  [0 ..< length v0])"
      using len by simp
  next
    fix i assume "i < length v'"
    then have i: "i < length v0" using len by simp
    show "v' ! i = map (\<lambda>k. if Some k \<in> set (map (\<lambda>j. joint_ordinal plant (joint_name j)) js) then w ! k else Finite 0)
                  [0 ..< length v0] ! i"
    proof (cases "Some i \<in> set (map (\<lambda>j. joint_ordinal plant (joint_name j)) js)")
      case True
      then obtain j where j: "j \<in> set js" "joint_ordinal plant (joint_name j) = Some i" by auto
      with hit have "Some (v' ! i) = var (joint_name j)" by fastforce
      then have "v' ! i = w ! i" using var j by simp
      then show ?thesis using True i by simp
    next
      case False
      then show ?thesis using keep i by simp
    qed
  qed
  then show ?thesis using r by simp
qed

lemma arm_consistent: "consistent (active_joint_models arm) arm_plant 3"
  by (simp add: consistent_def arm_def arm_plant_def shoulder_def elbow_def)

lemma arm_state_values:
  "list_all (\<lambda>j. variable_position arm_state (joint_name j) \<noteq> None \<and>
                  variable_velocity arm_state (joint_name j) \<noteq> None) (active_joint_models arm)"
  by (simp add: arm_def arm_state_def shoulder_def elbow_def)

text \<open>
  Claim C8. For a state of a model that knows the group, a pairing that is consistent for
  both capacities and a state that holds a position and a velocity for every active
  joint, both pack functions return a vector as long as the capacity; the entry at every
  active joint's ordinal is that joint's position (velocity), and every entry at an
  ordinal that no active joint is mapped to is exactly 0.
\<close>

theorem pack_dense_vector:
  assumes grp: "joint_model_groups (robot_model st) gname = Some g"
    and cp: "consistent (active_joint_models g) plant (num_positions plant)"
    and cv: "consistent (active_joint_models g) plant (num_velocities plant)"
    and vals: "list_all (\<lambda>j. variable_position st (joint_name j) \<noteq> None \<and>
                             variable_velocity st (joint_name j) \<noteq> None) (active_joint_models g)"
  shows "\<exists>p v. getJointPositionVector st gname plant = Inr p \<and>
               getJointVelocityVector st gname plant = Inr v \<and>
               length p = num_positions plant \<and> length v = num_velocities plant \<and>
               (\<forall>j\<in>set (active_joint_models g).
                  \<exists>k. joint_ordinal plant (joint_name j) = Some k \<and>
                      k < num_positions plant \<and> k < num_velocities plant \<and>
                      Some (p ! k) = variable_position st (joint_name j) \<and>
                      Some (v ! k) = variable_velocity st (joint_name j)) \<and>
               (\<forall>k < num_positions plant. Some k \<notin> set (mapped_ordinals plant g) \<longrightarrow> p ! k = Finite 0) \<and>
               (\<forall>k < num_velocities plant. Some k \<notin> set (mapped_ordinals plant g) \<longrightarrow> v ! k = Finite 0)"
  using getJointVector_result[OF assms] .

theorem pack_dense_vector_witness:
  "joint_model_groups (robot_model arm_state) ''arm'' = Some arm \<and>
   consistent (active_joint_models arm) arm_plant (num_positions arm_plant) \<and>
   consistent (active_joint_models arm) arm_plant (num_velocities arm_plant) \<and>
   getJointPositionVector arm_state ''arm'' arm_plant = Inr [Finite 7, Finite 0, Finite 5] \<and>
   getJointVelocityVector arm_state ''arm'' arm_plant = Inr [Finite (- 1), Finite 0, Finite 1]"
proof -
  have g: "joint_model_groups (robot_model arm_state) ''arm'' = Some arm"
    by (simp add: arm_state_def arm_model_def)
  have cp: "consistent (active_joint_models arm) arm_plant (num_positions arm_plant)"
    and cv: "consistent (active_joint_models arm) arm_plant (num_velocities arm_plant)"
    using arm_consistent by (simp_all add: arm_plant_def)
  from pack_dense_vector[OF g cp cv arm_state_values] obtain p v where
    pv: "getJointPositionVector arm_state ''arm'' arm_plant = Inr p"
        "getJointVelocityVector arm_state ''arm'' arm_plant = Inr v"
    by blast
  have "getJointPositionVector arm_state ''arm'' arm_plant = Inr [Finite 7, Finite 0, Finite 5]"
    by (simp add: getJointPositionVector_def arm_state_def arm_model_def arm_def arm_plant_def
        shoulder_def elbow_def numeral_3_eq_3)
  moreover have "getJointVelocityVector arm_state ''arm'' arm_plant = Inr [Finite (- 1), Finite 0, Finite 1]"
    by (simp add: getJointVelocityVector_def arm_state_def arm_model_def arm_def arm_plant_def
        shoulder_def elbow_def numeral_3_eq_3)
  ultimately show ?thesis using g cp cv by simp
qed

text \<open>
  Claim C1, as amended. Packing a state and unpacking the two vectors into a fresh state
  gives the state's positions and velocities restricted to the names of the group's
  active joints. Unpacking two vectors of the capacities' lengths and packing the
  result gives the vectors back at the ordinals of the active joints and 0 at every
  other ordinal: it is the identity only on vectors that are 0 wherever no active joint
  is mapped.
\<close>

theorem pack_unpack_round_trip:
  assumes grp: "joint_model_groups m gname = Some g"
    and cp: "consistent (active_joint_models g) plant (num_positions plant)"
    and cv: "consistent (active_joint_models g) plant (num_velocities plant)"
    and st: "robot_model st = m"
    and vals: "list_all (\<lambda>j. variable_position st (joint_name j) \<noteq> None \<and>
                             variable_velocity st (joint_name j) \<noteq> None) (active_joint_models g)"
    and p0: "length p0 = num_positions plant" and v0: "length v0 = num_velocities plant"
  shows "(\<exists>p v wp. getJointPositionVector st gname plant = Inr p \<and>
                   getJointVelocityVector st gname plant = Inr v \<and>
                   set_joint_values plant p v (active_joint_models g) (new_RobotState m) = Inr wp \<and>
                   variable_position wp = variable_position st |` (joint_name ` set (active_joint_models g)) \<and>
                   variable_velocity wp = variable_velocity st |` (joint_name ` set (active_joint_models g))) \<and>
         (\<exists>wp. set_joint_values plant p0 v0 (active_joint_models g) (new_RobotState m) = Inr wp \<and>
               getJointPositionVector wp gname plant =
                 Inr (map (\<lambda>k. if Some k \<in> set (mapped_ordinals plant g) then p0 ! k else Finite 0)
                        [0 ..< num_positions plant]) \<and>
               getJointVelocityVector wp gname plant =
                 Inr (map (\<lambda>k. if Some k \<in> set (mapped_ordinals plant g) then v0 ! k else Finite 0)
                        [0 ..< num_velocities plant]))"
proof
  let ?js = "active_joint_models g"
  have st_grp: "joint_model_groups (robot_model st) gname = Some g" using grp st by simp
  from getJointVector_result[OF st_grp cp cv vals] obtain p v where
    p: "getJointPositionVector st gname plant = Inr p" and v: "getJointVelocityVector st gname plant = Inr v"
    and len: "length p = num_positions plant" "length v = num_velocities plant"
    and hit: "\<forall>j\<in>set ?js. \<exists>k. joint_ordinal plant (joint_name j) = Some k \<and>
                      k < num_positions plant \<and> k < num_velocities plant \<and>
                      Some (p ! k) = variable_position st (joint_name j) \<and>
                      Some (v ! k) = variable_velocity st (joint_name j)"
    by blast
  have pre: "\<forall>j\<in>set ?js. \<exists>k. joint_ordinal plant (joint_name j) = Some k \<and> k < length p \<and> k < length v"
    using hit len by fastforce
  from set_joint_values_result[OF pre, of "new_RobotState m"] obtain wp where
    wp: "set_joint_values plant p v ?js (new_RobotState m) = Inr wp"
    and wpp: "variable_position wp =
             (\<lambda>n. if n \<in> joint_name ` set ?js then map_option ((!) p) (joint_ordinal plant n)
                  else variable_position (new_RobotState m) n)"
    and wpv: "variable_velocity wp =
             (\<lambda>n. if n \<in> joint_name ` set ?js then map_option ((!) v) (joint_ordinal plant n)
                  else variable_velocity (new_RobotState m) n)"
    by blast
  have "variable_position wp = variable_position st |` (joint_name ` set ?js)"
  proof
    fix n
    show "variable_position wp n = (variable_position st |` (joint_name ` set ?js)) n"
    proof (cases "n \<in> joint_name ` set ?js")
      case True
      then obtain j where j: "j \<in> set ?js" "n = joint_name j" by auto
      with hit obtain k where "joint_ordinal plant n = Some k" "Some (p ! k) = variable_position st n"
        by fastforce
      then show ?thesis using True wpp by simp
    next
      case False
      then show ?thesis using wpp by (simp add: new_RobotState_def)
    qed
  qed
  moreover have "variable_velocity wp = variable_velocity st |` (joint_name ` set ?js)"
  proof
    fix n
    show "variable_velocity wp n = (variable_velocity st |` (joint_name ` set ?js)) n"
    proof (cases "n \<in> joint_name ` set ?js")
      case True
      then obtain j where j: "j \<in> set ?js" "n = joint_name j" by auto
      with hit obtain k where "joint_ordinal plant n = Some k" "Some (v ! k) = variable_velocity st n"
        by fastforce
      then show ?thesis using True wpv by simp
    next
      case False
      then show ?thesis using wpv by (simp add: new_RobotState_def)
    qed
  qed
  ultimately show "\<exists>p v wp. getJointPositionVector st gname plant = Inr p \<and>
                   getJointVelocityVector st gname plant = Inr v \<and>
                   set_joint_values plant p v ?js (new_RobotState m) = Inr wp \<and>
                   variable_position wp = variable_position st |` (joint_name ` set ?js) \<and>
                   variable_velocity wp = variable_velocity st |` (joint_name ` set ?js)"
    using p v wp by blast
next
  let ?js = "active_joint_models g"
  have cp0: "consistent ?js plant (length p0)" and cv0: "consistent ?js plant (length v0)"
    using cp cv p0 v0 by simp_all
  have pre: "\<forall>j\<in>set ?js. \<exists>k. joint_ordinal plant (joint_name j) = Some k \<and> k < length p0 \<and> k < length v0"
  proof
    fix j assume j: "j \<in> set ?js"
    from consistent_ordinal[OF cp0 j] obtain k where k: "joint_ordinal plant (joint_name j) = Some k" "k < length p0" .
    from consistent_ordinal[OF cv0 j] obtain k' where "joint_ordinal plant (joint_name j) = Some k'" "k' < length v0" .
    with k show "\<exists>k. joint_ordinal plant (joint_name j) = Some k \<and> k < length p0 \<and> k < length v0" by simp
  qed
  from set_joint_values_result[OF pre, of "new_RobotState m"] obtain wp where
    wp: "set_joint_values plant p0 v0 ?js (new_RobotState m) = Inr wp"
    and wpm: "robot_model wp = robot_model (new_RobotState m)"
    and wpp: "variable_position wp =
             (\<lambda>n. if n \<in> joint_name ` set ?js then map_option ((!) p0) (joint_ordinal plant n)
                  else variable_position (new_RobotState m) n)"
    and wpv: "variable_velocity wp =
             (\<lambda>n. if n \<in> joint_name ` set ?js then map_option ((!) v0) (joint_ordinal plant n)
                  else variable_velocity (new_RobotState m) n)"
    by blast
  have g: "joint_model_groups (robot_model wp) gname = Some g"
    using wpm grp by (simp add: new_RobotState_def)
  have lp: "length ?js \<le> num_positions plant" and lv: "length ?js \<le> num_velocities plant"
    using cp cv by (simp_all add: consistent_def)
  have "\<forall>j\<in>set ?js. variable_position wp (joint_name j) = map_option ((!) p0) (joint_ordinal plant (joint_name j))"
    using wpp by simp
  from unpack_then_pack[OF cp0 refl this]
  have "getJointPositionVector wp gname plant =
          Inr (map (\<lambda>k. if Some k \<in> set (mapped_ordinals plant g) then p0 ! k else Finite 0)
                 [0 ..< num_positions plant])"
    using g lp p0 by (simp add: getJointPositionVector_def mapped_ordinals_def)
  moreover
  have "\<forall>j\<in>set ?js. variable_velocity wp (joint_name j) = map_option ((!) v0) (joint_ordinal plant (joint_name j))"
    using wpv by simp
  from unpack_then_pack[OF cv0 refl this]
  have "getJointVelocityVector wp gname plant =
          Inr (map (\<lambda>k. if Some k \<in> set (mapped_ordinals plant g) then v0 ! k else Finite 0)
                 [0 ..< num_velocities plant])"
    using g lv v0 by (simp add: getJointVelocityVector_def mapped_ordinals_def)
  ultimately show "\<exists>wp. set_joint_values plant p0 v0 ?js (new_RobotState m) = Inr wp \<and>
               getJointPositionVector wp gname plant =
                 Inr (map (\<lambda>k. if Some k \<in> set (mapped_ordinals plant g) then p0 ! k else Finite 0)
                        [0 ..< num_positions plant]) \<and>
               getJointVelocityVector wp gname plant =
                 Inr (map (\<lambda>k. if Some k \<in> set (mapped_ordinals plant g) then v0 ! k else Finite 0)
                        [0 ..< num_velocities plant])"
    using wp by blast
qed

theorem pack_unpack_round_trip_witness:
  "joint_model_groups arm_model ''arm'' = Some arm \<and>
   consistent (active_joint_models arm) arm_plant (num_positions arm_plant) \<and>
   consistent (active_joint_models arm) arm_plant (num_velocities arm_plant) \<and>
   robot_model arm_state = arm_model \<and>
   length [Finite 7, Finite 8, Finite 5] = num_positions arm_plant \<and>
   length [Finite 1, Finite 2, Finite 3] = num_velocities arm_plant \<and>
   (\<exists>p v wp. getJointPositionVector arm_state ''arm'' arm_plant = Inr p \<and>
             getJointVelocityVector arm_state ''arm'' arm_plant = Inr v \<and>
             set_joint_values arm_plant p v (active_joint_models arm) (new_RobotState arm_model) = Inr wp \<and>
             variable_position wp = variable_position arm_state |` (joint_name ` set (active_joint_models arm)) \<and>
             variable_velocity wp = variable_velocity arm_state |` (joint_name ` set (active_joint_models arm))) \<and>
   (\<exists>wp. set_joint_values arm_plant [Finite 7, Finite 8, Finite 5] [Finite 1, Finite 2, Finite 3]
           (active_joint_models arm) (new_RobotState arm_model) = Inr wp \<and>
         getJointPositionVector wp ''arm'' arm_plant = Inr [Finite 7, Finite 0, Finite 5] \<and>
         getJointVelocityVector wp ''arm'' arm_plant = Inr [Finite 1, Finite 0, Finite 3])"
proof -
  have g: "joint_model_groups arm_model ''arm'' = Some arm"
    by (simp add: arm_model_def)
  have cp: "consistent (active_joint_models arm) arm_plant (num_positions arm_plant)"
    and cv: "consistent (active_joint_models arm) arm_plant (num_velocities arm_plant)"
    using arm_consistent by (simp_all add: arm_plant_def)
  have m: "robot_model arm_state = arm_model"
    by (simp add: arm_state_def)
  have p0: "length [Finite 7, Finite 8, Finite 5] = num_positions arm_plant"
    and v0: "length [Finite 1, Finite 2, Finite 3] = num_velocities arm_plant"
    by (simp_all add: arm_plant_def)
  have ords: "map (\<lambda>k. if Some k \<in> set (mapped_ordinals arm_plant arm) then [Finite 7, Finite 8, Finite 5] ! k else Finite 0)
                [0 ..< num_positions arm_plant] = [Finite 7, Finite 0, Finite 5]"
    "map (\<lambda>k. if Some k \<in> set (mapped_ordinals arm_plant arm) then [Finite 1, Finite 2, Finite 3] ! k else Finite 0)
                [0 ..< num_velocities arm_plant] = [Finite 1, Finite 0, Finite 3]"
    by (simp_all add: mapped_ordinals_def arm_def arm_plant_def shoulder_def elbow_def upt_rec)
  from pack_unpack_round_trip[OF g cp cv m arm_state_values p0 v0]
  show ?thesis
    unfolding ords using g cp cv m p0 v0 by blast
qed

theorem unpack_pack_counterexample:
  "set_joint_values arm_plant [Finite 7, Finite 8, Finite 5] [Finite 0, Finite 0, Finite 0]
     (active_joint_models arm) (new_RobotState arm_model) =
   Inr \<lparr>robot_model = arm_model,
        variable_position = [''shoulder'' \<mapsto> Finite 5, ''elbow'' \<mapsto> Finite 7],
        variable_velocity = [''shoulder'' \<mapsto> Finite 0, ''elbow'' \<mapsto> Finite 0]\<rparr> \<and>
   getJointPositionVector
     \<lparr>robot_model = arm_model,
      variable_position = [''shoulder'' \<mapsto> Finite 5, ''elbow'' \<mapsto> Finite 7],
      variable_velocity = [''shoulder'' \<mapsto> Finite 0, ''elbow'' \<mapsto> Finite 0]\<rparr> ''arm'' arm_plant =
   Inr [Finite 7, Finite 0, Finite 5] \<and>
   [Finite 7, Finite 0, Finite 5] \<noteq> [Finite 7, Finite 8, Finite 5]"
  by (simp add: getJointPositionVector_def new_RobotState_def arm_model_def arm_def arm_plant_def
        shoulder_def elbow_def numeral_3_eq_3)

section \<open>Bound extraction\<close>

lemma bounds_joints_result:
  assumes "\<forall>j\<in>set js. variable_bounds j \<noteq> [] \<and>
             (\<exists>k. joint_ordinal plant (joint_name j) = Some k \<and> k < length lower \<and> k < length upper)"
  shows "\<exists>lower' upper'. bounds_joints bounded lo hi plant js (lower, upper) = Inr (lower', upper') \<and>
           length lower' = length lower \<and> length upper' = length upper \<and>
           (\<forall>k. (\<forall>j\<in>set js. joint_ordinal plant (joint_name j) = Some k \<longrightarrow> \<not> bounded (first_bounds j)) \<longrightarrow>
                lower' ! k = lower ! k \<and> upper' ! k = upper ! k) \<and>
           (distinct (map (\<lambda>j. joint_ordinal plant (joint_name j)) js) \<longrightarrow>
              (\<forall>j\<in>set js. \<forall>k. joint_ordinal plant (joint_name j) = Some k \<longrightarrow> bounded (first_bounds j) \<longrightarrow>
                 lower' ! k = lo (first_bounds j) \<and> upper' ! k = hi (first_bounds j)))"
  using assms
proof (induction js arbitrary: lower upper)
  case Nil
  then show ?case by simp
next
  case (Cons j js)
  from Cons.prems obtain b bs k where
    b: "variable_bounds j = b # bs" and
    k: "joint_ordinal plant (joint_name j) = Some k" "k < length lower" "k < length upper"
    by (cases "variable_bounds j") auto
  have fb: "first_bounds j = b" using b by (simp add: first_bounds_def)
  define lower1 where "lower1 = (if bounded b then lower[k := lo b] else lower)"
  define upper1 where "upper1 = (if bounded b then upper[k := hi b] else upper)"
  have l1: "length lower1 = length lower" "length upper1 = length upper"
    by (simp_all add: lower1_def upper1_def)
  have step: "bounds_joints bounded lo hi plant (j # js) (lower, upper) =
              bounds_joints bounded lo hi plant js (lower1, upper1)"
    using b k by (simp add: lower1_def upper1_def)
  have "\<forall>j\<in>set js. variable_bounds j \<noteq> [] \<and>
             (\<exists>k. joint_ordinal plant (joint_name j) = Some k \<and> k < length lower1 \<and> k < length upper1)"
    using Cons.prems l1 by simp
  from Cons.IH[OF this] obtain lower' upper' where
    r: "bounds_joints bounded lo hi plant js (lower1, upper1) = Inr (lower', upper')"
    and len: "length lower' = length lower1" "length upper' = length upper1"
    and keep: "\<And>k'. (\<forall>j\<in>set js. joint_ordinal plant (joint_name j) = Some k' \<longrightarrow> \<not> bounded (first_bounds j)) \<Longrightarrow>
                lower' ! k' = lower1 ! k' \<and> upper' ! k' = upper1 ! k'"
    and hit: "distinct (map (\<lambda>j. joint_ordinal plant (joint_name j)) js) \<Longrightarrow>
              (\<forall>j\<in>set js. \<forall>k. joint_ordinal plant (joint_name j) = Some k \<longrightarrow> bounded (first_bounds j) \<longrightarrow>
                 lower' ! k = lo (first_bounds j) \<and> upper' ! k = hi (first_bounds j))"
    by blast
  have "bounds_joints bounded lo hi plant (j # js) (lower, upper) = Inr (lower', upper')"
    using step r by simp
  moreover have "length lower' = length lower" "length upper' = length upper"
    using len l1 by simp_all
  moreover have "\<forall>k'. (\<forall>j'\<in>set (j # js). joint_ordinal plant (joint_name j') = Some k' \<longrightarrow> \<not> bounded (first_bounds j')) \<longrightarrow>
                lower' ! k' = lower ! k' \<and> upper' ! k' = upper ! k'"
  proof (intro allI impI)
    fix k'
    assume a: "\<forall>j'\<in>set (j # js). joint_ordinal plant (joint_name j') = Some k' \<longrightarrow> \<not> bounded (first_bounds j')"
    then have "lower' ! k' = lower1 ! k' \<and> upper' ! k' = upper1 ! k'"
      using keep[of k'] by simp
    moreover have "lower1 ! k' = lower ! k' \<and> upper1 ! k' = upper ! k'"
      using a k fb by (cases "k' = k") (auto simp: lower1_def upper1_def)
    ultimately show "lower' ! k' = lower ! k' \<and> upper' ! k' = upper ! k'" by simp
  qed
  moreover have "distinct (map (\<lambda>j. joint_ordinal plant (joint_name j)) (j # js)) \<longrightarrow>
              (\<forall>j'\<in>set (j # js). \<forall>k. joint_ordinal plant (joint_name j') = Some k \<longrightarrow> bounded (first_bounds j') \<longrightarrow>
                 lower' ! k = lo (first_bounds j') \<and> upper' ! k = hi (first_bounds j'))"
  proof (intro impI ballI allI)
    fix j' k'
    assume d: "distinct (map (\<lambda>j. joint_ordinal plant (joint_name j)) (j # js))"
      and j': "j' \<in> set (j # js)" and k': "joint_ordinal plant (joint_name j') = Some k'"
      and bd: "bounded (first_bounds j')"
    show "lower' ! k' = lo (first_bounds j') \<and> upper' ! k' = hi (first_bounds j')"
    proof (cases "j' \<in> set js")
      case True
      then show ?thesis using hit d k' bd by simp
    next
      case False
      then have e: "j' = j" using j' by simp
      then have kk: "k' = k" using k k' by simp
      have "\<forall>j\<in>set js. joint_ordinal plant (joint_name j) \<noteq> Some k"
        using d k by (auto simp: image_iff)
      then have "lower' ! k = lower1 ! k \<and> upper' ! k = upper1 ! k"
        using keep[of k] by simp
      then show ?thesis using bd e fb kk k by (simp add: lower1_def upper1_def)
    qed
  qed
  ultimately show ?case by blast
qed

lemma bounds_vectors:
  assumes cons: "consistent js plant n"
    and nb: "list_all (\<lambda>j. variable_bounds j \<noteq> []) js"
  shows "\<exists>lower upper.
           bounds_joints bounded lo hi plant js (replicate n dl, replicate n dh) = Inr (lower, upper) \<and>
           length lower = n \<and> length upper = n \<and>
           (\<forall>k<n. (\<forall>j\<in>set js. joint_ordinal plant (joint_name j) = Some k \<longrightarrow> \<not> bounded (first_bounds j)) \<longrightarrow>
                  lower ! k = dl \<and> upper ! k = dh) \<and>
           (\<forall>j\<in>set js. \<exists>k<n. joint_ordinal plant (joint_name j) = Some k \<and>
                  lower ! k = (if bounded (first_bounds j) then lo (first_bounds j) else dl) \<and>
                  upper ! k = (if bounded (first_bounds j) then hi (first_bounds j) else dh))"
proof -
  let ?f = "\<lambda>j. joint_ordinal plant (joint_name j)"
  have d: "distinct (map ?f js)" using cons by (simp add: consistent_def)
  have pre: "\<forall>j\<in>set js. variable_bounds j \<noteq> [] \<and>
             (\<exists>k. ?f j = Some k \<and> k < length (replicate n dl) \<and> k < length (replicate n dh))"
  proof
    fix j assume j: "j \<in> set js"
    from consistent_ordinal[OF cons j] obtain k where "?f j = Some k" "k < n" .
    then show "variable_bounds j \<noteq> [] \<and>
             (\<exists>k. ?f j = Some k \<and> k < length (replicate n dl) \<and> k < length (replicate n dh))"
      using nb j by (auto simp: list_all_iff)
  qed
  from bounds_joints_result[OF pre, of bounded lo hi] d obtain lower upper where
    r: "bounds_joints bounded lo hi plant js (replicate n dl, replicate n dh) = Inr (lower, upper)"
    and len: "length lower = n" "length upper = n"
    and keep: "\<And>k. (\<forall>j\<in>set js. ?f j = Some k \<longrightarrow> \<not> bounded (first_bounds j)) \<Longrightarrow>
                lower ! k = replicate n dl ! k \<and> upper ! k = replicate n dh ! k"
    and hit: "\<And>j k. j \<in> set js \<Longrightarrow> ?f j = Some k \<Longrightarrow> bounded (first_bounds j) \<Longrightarrow>
                 lower ! k = lo (first_bounds j) \<and> upper ! k = hi (first_bounds j)"
    by (simp add: length_replicate) blast
  have dflt: "\<forall>k<n. (\<forall>j\<in>set js. ?f j = Some k \<longrightarrow> \<not> bounded (first_bounds j)) \<longrightarrow>
                  lower ! k = dl \<and> upper ! k = dh"
    using keep by simp
  have "\<forall>j\<in>set js. \<exists>k<n. ?f j = Some k \<and>
                  lower ! k = (if bounded (first_bounds j) then lo (first_bounds j) else dl) \<and>
                  upper ! k = (if bounded (first_bounds j) then hi (first_bounds j) else dh)"
  proof
    fix j assume j: "j \<in> set js"
    from consistent_ordinal[OF cons j] obtain k where k: "?f j = Some k" "k < n" .
    have only: "\<forall>j'\<in>set js. ?f j' = Some k \<longrightarrow> j' = j"
      using d j k by (metis distinct_map inj_onD)
    show "\<exists>k<n. ?f j = Some k \<and>
                  lower ! k = (if bounded (first_bounds j) then lo (first_bounds j) else dl) \<and>
                  upper ! k = (if bounded (first_bounds j) then hi (first_bounds j) else dh)"
    proof (cases "bounded (first_bounds j)")
      case True
      then show ?thesis using hit[OF j k(1)] k by auto
    next
      case False
      then have "\<forall>j'\<in>set js. ?f j' = Some k \<longrightarrow> \<not> bounded (first_bounds j')"
        using only by blast
      then show ?thesis using dflt k False by auto
    qed
  qed
  then show ?thesis using r len dflt by blast
qed

lemma bounds_joints_same_limits:
  assumes "list_all2 (same_limits bounded lo hi) js js'"
  shows "bounds_joints bounded lo hi plant js acc = bounds_joints bounded lo hi plant js' acc"
  using assms
proof (induction js js' arbitrary: acc rule: list_all2_induct)
  case Nil
  then show ?case by simp
next
  case (Cons j js j' js')
  obtain lower upper where acc: "acc = (lower, upper)" by (cases acc)
  show ?case
    using Cons.hyps(1) Cons.IH unfolding acc
    by (auto simp: same_limits_def split: list.splits option.splits)
qed

lemma bounds_call:
  assumes cons: "consistent js plant n"
    and nb: "list_all (\<lambda>j. variable_bounds j \<noteq> []) js"
  shows "\<exists>lower upper.
           bounds_joints bounded lo hi plant js (replicate n dl, replicate n dh) = Inr (lower, upper) \<and>
           length lower = n \<and> length upper = n \<and>
           (\<forall>k<n. (\<forall>j\<in>set js. joint_ordinal plant (joint_name j) = Some k \<longrightarrow> \<not> bounded (first_bounds j)) \<longrightarrow>
                  lower ! k = dl \<and> upper ! k = dh)"
  using bounds_vectors[OF assms, of bounded lo hi dl dh] by blast

lemma bounds_call_joints:
  assumes cons: "consistent js plant n"
    and nb: "list_all (\<lambda>j. variable_bounds j \<noteq> []) js"
  shows "\<exists>lower upper.
           bounds_joints bounded lo hi plant js (replicate n dl, replicate n dh) = Inr (lower, upper) \<and>
           (\<forall>j\<in>set js. \<exists>k<n. joint_ordinal plant (joint_name j) = Some k \<and>
                  lower ! k = (if bounded (first_bounds j) then lo (first_bounds j) else dl) \<and>
                  upper ! k = (if bounded (first_bounds j) then hi (first_bounds j) else dh))"
  using bounds_vectors[OF assms, of bounded lo hi dl dh] by blast

lemma arm_has_bounds: "list_all (\<lambda>j. variable_bounds j \<noteq> []) (active_joint_models arm)"
  by (simp add: arm_def shoulder_def elbow_def)

text \<open>
  Claim C3, as amended. For a consistent pairing whose joints all carry variable bounds,
  each extractor returns two vectors of the capacity's length (the position capacity
  for positions, the velocity capacity for the other three) that hold the category
  default at every ordinal to which no active joint with the flag set is mapped; so at
  the ordinal of every joint whose flag is false and at every unused ordinal. The
  position default is the pair of the lowest and the largest finite double, not the
  infinities; the default of velocity, acceleration and jerk is \<open>(-100, 100)\<close>.
\<close>

theorem bounds_defaults:
  assumes nb: "list_all (\<lambda>j. variable_bounds j \<noteq> []) (active_joint_models g)"
  shows "(consistent (active_joint_models g) plant (num_positions plant) \<longrightarrow>
          (\<exists>lower upper. getPositionBounds g plant = Inr (lower, upper) \<and>
             length lower = num_positions plant \<and> length upper = num_positions plant \<and>
             (\<forall>k<num_positions plant.
                (\<forall>j\<in>set (active_joint_models g). joint_ordinal plant (joint_name j) = Some k \<longrightarrow>
                                  \<not> position_bounded (first_bounds j)) \<longrightarrow>
                lower ! k = Finite (- DBL_MAX) \<and> upper ! k = Finite DBL_MAX))) \<and>
         (consistent (active_joint_models g) plant (num_velocities plant) \<longrightarrow>
          (\<exists>lower upper. getVelocityBounds g plant = Inr (lower, upper) \<and>
             length lower = num_velocities plant \<and> length upper = num_velocities plant \<and>
             (\<forall>k<num_velocities plant.
                (\<forall>j\<in>set (active_joint_models g). joint_ordinal plant (joint_name j) = Some k \<longrightarrow>
                                  \<not> velocity_bounded (first_bounds j)) \<longrightarrow>
                lower ! k = Finite (- 100) \<and> upper ! k = Finite 100))) \<and>
         (consistent (active_joint_models g) plant (num_velocities plant) \<and>
          length (active_joint_models g) \<le> num_accelerations plant \<longrightarrow>
          (\<exists>lower upper. getAccelerationBounds g plant = Inr (lower, upper) \<and>
             length lower = num_velocities plant \<and> length upper = num_velocities plant \<and>
             (\<forall>k<num_velocities plant.
                (\<forall>j\<in>set (active_joint_models g). joint_ordinal plant (joint_name j) = Some k \<longrightarrow>
                                  \<not> acceleration_bounded (first_bounds j)) \<longrightarrow>
                lower ! k = Finite (- 100) \<and> upper ! k = Finite 100))) \<and>
         (consistent (active_joint_models g) plant (num_velocities plant) \<longrightarrow>
          (\<exists>lower upper. getJerkBounds g plant = Inr (lower, upper) \<and>
             length lower = num_velocities plant \<and> length upper = num_velocities plant \<and>
             (\<forall>k<num_velocities plant.
                (\<forall>j\<in>set (active_joint_models g). joint_ordinal plant (joint_name j) = Some k \<longrightarrow>
                                  \<not> jerk_bounded (first_bounds j)) \<longrightarrow>
                lower ! k = Finite (- 100) \<and> upper ! k = Finite 100)))"
proof -
  have a: "consistent (active_joint_models g) plant (num_positions plant) \<longrightarrow>
          (\<exists>lower upper. getPositionBounds g plant = Inr (lower, upper) \<and>
             length lower = num_positions plant \<and> length upper = num_positions plant \<and>
             (\<forall>k<num_positions plant.
                (\<forall>j\<in>set (active_joint_models g). joint_ordinal plant (joint_name j) = Some k \<longrightarrow>
                                  \<not> position_bounded (first_bounds j)) \<longrightarrow>
                lower ! k = Finite (- DBL_MAX) \<and> upper ! k = Finite DBL_MAX))"
  proof
    assume h: "consistent (active_joint_models g) plant (num_positions plant)"
    then have c: "consistent (active_joint_models g) plant (num_positions plant)" by simp
    then have l: "length (active_joint_models g) \<le> num_positions plant" by (simp add: consistent_def)
    show "(\<exists>lower upper. getPositionBounds g plant = Inr (lower, upper) \<and>
      length lower = num_positions plant \<and> length upper = num_positions plant \<and>
      (\<forall>k<num_positions plant.
         (\<forall>j\<in>set (active_joint_models g). joint_ordinal plant (joint_name j) = Some k \<longrightarrow>
                           \<not> position_bounded (first_bounds j)) \<longrightarrow>
         lower ! k = Finite (- DBL_MAX) \<and> upper ! k = Finite DBL_MAX))"
      using bounds_call[OF c nb, of position_bounded min_position max_position "Finite (- DBL_MAX)" "Finite DBL_MAX"] l h
      by (simp add: getPositionBounds_def getVelocityBounds_def getAccelerationBounds_def getJerkBounds_def numeric_limits_lowest_def numeric_limits_max_def kMaxVelocity_def kMaxAcceleration_def kMaxJerk_def)
  qed
  have b: "consistent (active_joint_models g) plant (num_velocities plant) \<longrightarrow>
          (\<exists>lower upper. getVelocityBounds g plant = Inr (lower, upper) \<and>
             length lower = num_velocities plant \<and> length upper = num_velocities plant \<and>
             (\<forall>k<num_velocities plant.
                (\<forall>j\<in>set (active_joint_models g). joint_ordinal plant (joint_name j) = Some k \<longrightarrow>
                                  \<not> velocity_bounded (first_bounds j)) \<longrightarrow>
                lower ! k = Finite (- 100) \<and> upper ! k = Finite 100))"
  proof
    assume h: "consistent (active_joint_models g) plant (num_velocities plant)"
    then have c: "consistent (active_joint_models g) plant (num_velocities plant)" by simp
    then have l: "length (active_joint_models g) \<le> num_velocities plant" by (simp add: consistent_def)
    show "(\<exists>lower upper. getVelocityBounds g plant = Inr (lower, upper) \<and>
      length lower = num_velocities plant \<and> length upper = num_velocities plant \<and>
      (\<forall>k<num_velocities plant.
         (\<forall>j\<in>set (active_joint_models g). joint_ordinal plant (joint_name j) = Some k \<longrightarrow>
                           \<not> velocity_bounded (first_bounds j)) \<longrightarrow>
         lower ! k = Finite (- 100) \<and> upper ! k = Finite 100))"
      using bounds_call[OF c nb, of velocity_bounded min_velocity max_velocity "Finite (- 100)" "Finite 100"] l h
      by (simp add: getPositionBounds_def getVelocityBounds_def getAccelerationBounds_def getJerkBounds_def numeric_limits_lowest_def numeric_limits_max_def kMaxVelocity_def kMaxAcceleration_def kMaxJerk_def)
  qed
  have c: "consistent (active_joint_models g) plant (num_velocities plant) \<and>
          length (active_joint_models g) \<le> num_accelerations plant \<longrightarrow>
          (\<exists>lower upper. getAccelerationBounds g plant = Inr (lower, upper) \<and>
             length lower = num_velocities plant \<and> length upper = num_velocities plant \<and>
             (\<forall>k<num_velocities plant.
                (\<forall>j\<in>set (active_joint_models g). joint_ordinal plant (joint_name j) = Some k \<longrightarrow>
                                  \<not> acceleration_bounded (first_bounds j)) \<longrightarrow>
                lower ! k = Finite (- 100) \<and> upper ! k = Finite 100))"
  proof
    assume h: "consistent (active_joint_models g) plant (num_velocities plant) \<and>
          length (active_joint_models g) \<le> num_accelerations plant"
    then have c: "consistent (active_joint_models g) plant (num_velocities plant)" by simp
    then have l: "length (active_joint_models g) \<le> num_velocities plant" by (simp add: consistent_def)
    show "(\<exists>lower upper. getAccelerationBounds g plant = Inr (lower, upper) \<and>
      length lower = num_velocities plant \<and> length upper = num_velocities plant \<and>
      (\<forall>k<num_velocities plant.
         (\<forall>j\<in>set (active_joint_models g). joint_ordinal plant (joint_name j) = Some k \<longrightarrow>
                           \<not> acceleration_bounded (first_bounds j)) \<longrightarrow>
         lower ! k = Finite (- 100) \<and> upper ! k = Finite 100))"
      using bounds_call[OF c nb, of acceleration_bounded min_acceleration max_acceleration "Finite (- 100)" "Finite 100"] l h
      by (simp add: getPositionBounds_def getVelocityBounds_def getAccelerationBounds_def getJerkBounds_def numeric_limits_lowest_def numeric_limits_max_def kMaxVelocity_def kMaxAcceleration_def kMaxJerk_def)
  qed
  have d: "consistent (active_joint_models g) plant (num_velocities plant) \<longrightarrow>
          (\<exists>lower upper. getJerkBounds g plant = Inr (lower, upper) \<and>
             length lower = num_velocities plant \<and> length upper = num_velocities plant \<and>
             (\<forall>k<num_velocities plant.
                (\<forall>j\<in>set (active_joint_models g). joint_ordinal plant (joint_name j) = Some k \<longrightarrow>
                                  \<not> jerk_bounded (first_bounds j)) \<longrightarrow>
                lower ! k = Finite (- 100) \<and> upper ! k = Finite 100))"
  proof
    assume h: "consistent (active_joint_models g) plant (num_velocities plant)"
    then have c: "consistent (active_joint_models g) plant (num_velocities plant)" by simp
    then have l: "length (active_joint_models g) \<le> num_velocities plant" by (simp add: consistent_def)
    show "(\<exists>lower upper. getJerkBounds g plant = Inr (lower, upper) \<and>
      length lower = num_velocities plant \<and> length upper = num_velocities plant \<and>
      (\<forall>k<num_velocities plant.
         (\<forall>j\<in>set (active_joint_models g). joint_ordinal plant (joint_name j) = Some k \<longrightarrow>
                           \<not> jerk_bounded (first_bounds j)) \<longrightarrow>
         lower ! k = Finite (- 100) \<and> upper ! k = Finite 100))"
      using bounds_call[OF c nb, of jerk_bounded min_jerk max_jerk "Finite (- 100)" "Finite 100"] l h
      by (simp add: getPositionBounds_def getVelocityBounds_def getAccelerationBounds_def getJerkBounds_def numeric_limits_lowest_def numeric_limits_max_def kMaxVelocity_def kMaxAcceleration_def kMaxJerk_def)
  qed
  show ?thesis
    using a b c d by blast
qed

theorem bounds_defaults_witness:
  "consistent (active_joint_models arm) arm_plant (num_positions arm_plant) \<and>
   consistent (active_joint_models arm) arm_plant (num_velocities arm_plant) \<and>
   length (active_joint_models arm) \<le> num_accelerations arm_plant \<and>
   list_all (\<lambda>j. variable_bounds j \<noteq> []) (active_joint_models arm) \<and>
   getPositionBounds arm arm_plant =
     Inr ([Finite (- DBL_MAX), Finite (- DBL_MAX), Finite (- 1)], [Finite DBL_MAX, Finite DBL_MAX, Finite 1]) \<and>
   getVelocityBounds arm arm_plant =
     Inr ([Finite (- 6), Finite (- 100), Finite (- 100)], [Finite 6, Finite 100, Finite 100]) \<and>
   getAccelerationBounds arm arm_plant =
     Inr ([Finite (- 100), Finite (- 100), Finite (- 3)], [Finite 100, Finite 100, Finite 3]) \<and>
   getJerkBounds arm arm_plant =
     Inr ([Finite (- 8), Finite (- 100), Finite (- 100)], [Finite 8, Finite 100, Finite 100])"
proof -
  have cp: "consistent (active_joint_models arm) arm_plant (num_positions arm_plant)"
    and cv: "consistent (active_joint_models arm) arm_plant (num_velocities arm_plant)"
    using arm_consistent by (simp_all add: arm_plant_def)
  have ca: "length (active_joint_models arm) \<le> num_accelerations arm_plant"
    by (simp add: arm_def arm_plant_def)
  from bounds_defaults[OF arm_has_bounds] cp obtain lower upper where
    r: "getPositionBounds arm arm_plant = Inr (lower, upper)"
    and len: "length lower = num_positions arm_plant" "length upper = num_positions arm_plant"
    and dflt: "\<forall>k<num_positions arm_plant.
               (\<forall>j\<in>set (active_joint_models arm). joint_ordinal arm_plant (joint_name j) = Some k \<longrightarrow>
                                 \<not> position_bounded (first_bounds j)) \<longrightarrow>
               lower ! k = Finite (- DBL_MAX) \<and> upper ! k = Finite DBL_MAX"
    by blast
  have "(1::nat) < num_positions arm_plant" by (simp add: arm_plant_def)
  with dflt have unused: "lower ! 1 = Finite (- DBL_MAX) \<and> upper ! 1 = Finite DBL_MAX"
    by (simp add: arm_def arm_plant_def shoulder_def elbow_def)
  have p: "getPositionBounds arm arm_plant =
     Inr ([Finite (- DBL_MAX), Finite (- DBL_MAX), Finite (- 1)], [Finite DBL_MAX, Finite DBL_MAX, Finite 1])"
    by (simp add: getPositionBounds_def arm_def arm_plant_def shoulder_def elbow_def
        shoulder_bounds_def elbow_bounds_def numeric_limits_lowest_def numeric_limits_max_def numeral_3_eq_3)
  have v: "getVelocityBounds arm arm_plant =
     Inr ([Finite (- 6), Finite (- 100), Finite (- 100)], [Finite 6, Finite 100, Finite 100])"
    by (simp add: getVelocityBounds_def arm_def arm_plant_def shoulder_def elbow_def
        shoulder_bounds_def elbow_bounds_def kMaxVelocity_def numeral_3_eq_3)
  have a: "getAccelerationBounds arm arm_plant =
     Inr ([Finite (- 100), Finite (- 100), Finite (- 3)], [Finite 100, Finite 100, Finite 3])"
    by (simp add: getAccelerationBounds_def arm_def arm_plant_def shoulder_def elbow_def
        shoulder_bounds_def elbow_bounds_def kMaxAcceleration_def numeral_3_eq_3)
  have j: "getJerkBounds arm arm_plant =
     Inr ([Finite (- 8), Finite (- 100), Finite (- 100)], [Finite 8, Finite 100, Finite 100])"
    by (simp add: getJerkBounds_def arm_def arm_plant_def shoulder_def elbow_def
        shoulder_bounds_def elbow_bounds_def kMaxJerk_def numeral_3_eq_3)
  show ?thesis
    using cp cv ca arm_has_bounds p v a j unused by simp
qed

theorem position_default_counterexample:
  "\<not> position_bounded (first_bounds elbow) \<and>
   joint_ordinal arm_plant (joint_name elbow) = Some 0 \<and>
   getPositionBounds arm arm_plant =
     Inr ([Finite (- DBL_MAX), Finite (- DBL_MAX), Finite (- 1)], [Finite DBL_MAX, Finite DBL_MAX, Finite 1]) \<and>
   Finite (- DBL_MAX) \<noteq> NegInf \<and> Finite DBL_MAX \<noteq> PosInf"
  by (simp add: getPositionBounds_def arm_def arm_plant_def shoulder_def elbow_def first_bounds_def
        shoulder_bounds_def elbow_bounds_def numeric_limits_lowest_def numeric_limits_max_def numeral_3_eq_3)

text \<open>
  Claim C9. For each of the four quantities, at the ordinal of every active joint the
  lower and upper vectors hold the joint's declared minimum and maximum when its flag
  for that quantity is set, and the category default otherwise. The vectors of one
  quantity depend on the flag, minimum and maximum of that quantity only: a group whose
  joints agree with this one on them gets the same vectors, whatever it declares for
  the other three quantities.
\<close>

theorem bounds_overwrite:
  assumes nb: "list_all (\<lambda>j. variable_bounds j \<noteq> []) (active_joint_models g)"
  shows "(consistent (active_joint_models g) plant (num_positions plant) \<longrightarrow>
          (\<exists>lower upper. getPositionBounds g plant = Inr (lower, upper) \<and>
             (\<forall>j\<in>set (active_joint_models g). \<exists>k<num_positions plant. joint_ordinal plant (joint_name j) = Some k \<and>
                lower ! k = (if position_bounded (first_bounds j) then min_position (first_bounds j) else Finite (- DBL_MAX)) \<and>
                upper ! k = (if position_bounded (first_bounds j) then max_position (first_bounds j) else Finite DBL_MAX)))) \<and>
         (\<forall>g'. list_all2 (same_limits position_bounded min_position max_position) (active_joint_models g') (active_joint_models g) \<longrightarrow>
               getPositionBounds g' plant = getPositionBounds g plant) \<and>
         (consistent (active_joint_models g) plant (num_velocities plant) \<longrightarrow>
          (\<exists>lower upper. getVelocityBounds g plant = Inr (lower, upper) \<and>
             (\<forall>j\<in>set (active_joint_models g). \<exists>k<num_velocities plant. joint_ordinal plant (joint_name j) = Some k \<and>
                lower ! k = (if velocity_bounded (first_bounds j) then min_velocity (first_bounds j) else Finite (- 100)) \<and>
                upper ! k = (if velocity_bounded (first_bounds j) then max_velocity (first_bounds j) else Finite 100)))) \<and>
         (\<forall>g'. list_all2 (same_limits velocity_bounded min_velocity max_velocity) (active_joint_models g') (active_joint_models g) \<longrightarrow>
               getVelocityBounds g' plant = getVelocityBounds g plant) \<and>
         (consistent (active_joint_models g) plant (num_velocities plant) \<and>
          length (active_joint_models g) \<le> num_accelerations plant \<longrightarrow>
          (\<exists>lower upper. getAccelerationBounds g plant = Inr (lower, upper) \<and>
             (\<forall>j\<in>set (active_joint_models g). \<exists>k<num_velocities plant. joint_ordinal plant (joint_name j) = Some k \<and>
                lower ! k = (if acceleration_bounded (first_bounds j) then min_acceleration (first_bounds j) else Finite (- 100)) \<and>
                upper ! k = (if acceleration_bounded (first_bounds j) then max_acceleration (first_bounds j) else Finite 100)))) \<and>
         (\<forall>g'. list_all2 (same_limits acceleration_bounded min_acceleration max_acceleration) (active_joint_models g') (active_joint_models g) \<longrightarrow>
               getAccelerationBounds g' plant = getAccelerationBounds g plant) \<and>
         (consistent (active_joint_models g) plant (num_velocities plant) \<longrightarrow>
          (\<exists>lower upper. getJerkBounds g plant = Inr (lower, upper) \<and>
             (\<forall>j\<in>set (active_joint_models g). \<exists>k<num_velocities plant. joint_ordinal plant (joint_name j) = Some k \<and>
                lower ! k = (if jerk_bounded (first_bounds j) then min_jerk (first_bounds j) else Finite (- 100)) \<and>
                upper ! k = (if jerk_bounded (first_bounds j) then max_jerk (first_bounds j) else Finite 100)))) \<and>
         (\<forall>g'. list_all2 (same_limits jerk_bounded min_jerk max_jerk) (active_joint_models g') (active_joint_models g) \<longrightarrow>
               getJerkBounds g' plant = getJerkBounds g plant)"
proof -
  have a: "consistent (active_joint_models g) plant (num_positions plant) \<longrightarrow>
          (\<exists>lower upper. getPositionBounds g plant = Inr (lower, upper) \<and>
             (\<forall>j\<in>set (active_joint_models g). \<exists>k<num_positions plant. joint_ordinal plant (joint_name j) = Some k \<and>
                lower ! k = (if position_bounded (first_bounds j) then min_position (first_bounds j) else Finite (- DBL_MAX)) \<and>
                upper ! k = (if position_bounded (first_bounds j) then max_position (first_bounds j) else Finite DBL_MAX)))"
  proof
    assume h: "consistent (active_joint_models g) plant (num_positions plant)"
    then have c: "consistent (active_joint_models g) plant (num_positions plant)" by simp
    then have l: "length (active_joint_models g) \<le> num_positions plant" by (simp add: consistent_def)
    show "(\<exists>lower upper. getPositionBounds g plant = Inr (lower, upper) \<and>
      (\<forall>j\<in>set (active_joint_models g). \<exists>k<num_positions plant. joint_ordinal plant (joint_name j) = Some k \<and>
         lower ! k = (if position_bounded (first_bounds j) then min_position (first_bounds j) else Finite (- DBL_MAX)) \<and>
         upper ! k = (if position_bounded (first_bounds j) then max_position (first_bounds j) else Finite DBL_MAX)))"
      using bounds_call_joints[OF c nb, of position_bounded min_position max_position "Finite (- DBL_MAX)" "Finite DBL_MAX"] l h
      by (simp add: getPositionBounds_def getVelocityBounds_def getAccelerationBounds_def getJerkBounds_def numeric_limits_lowest_def numeric_limits_max_def kMaxVelocity_def kMaxAcceleration_def kMaxJerk_def)
  qed
  have b: "consistent (active_joint_models g) plant (num_velocities plant) \<longrightarrow>
          (\<exists>lower upper. getVelocityBounds g plant = Inr (lower, upper) \<and>
             (\<forall>j\<in>set (active_joint_models g). \<exists>k<num_velocities plant. joint_ordinal plant (joint_name j) = Some k \<and>
                lower ! k = (if velocity_bounded (first_bounds j) then min_velocity (first_bounds j) else Finite (- 100)) \<and>
                upper ! k = (if velocity_bounded (first_bounds j) then max_velocity (first_bounds j) else Finite 100)))"
  proof
    assume h: "consistent (active_joint_models g) plant (num_velocities plant)"
    then have c: "consistent (active_joint_models g) plant (num_velocities plant)" by simp
    then have l: "length (active_joint_models g) \<le> num_velocities plant" by (simp add: consistent_def)
    show "(\<exists>lower upper. getVelocityBounds g plant = Inr (lower, upper) \<and>
      (\<forall>j\<in>set (active_joint_models g). \<exists>k<num_velocities plant. joint_ordinal plant (joint_name j) = Some k \<and>
         lower ! k = (if velocity_bounded (first_bounds j) then min_velocity (first_bounds j) else Finite (- 100)) \<and>
         upper ! k = (if velocity_bounded (first_bounds j) then max_velocity (first_bounds j) else Finite 100)))"
      using bounds_call_joints[OF c nb, of velocity_bounded min_velocity max_velocity "Finite (- 100)" "Finite 100"] l h
      by (simp add: getPositionBounds_def getVelocityBounds_def getAccelerationBounds_def getJerkBounds_def numeric_limits_lowest_def numeric_limits_max_def kMaxVelocity_def kMaxAcceleration_def kMaxJerk_def)
  qed
  have c: "consistent (active_joint_models g) plant (num_velocities plant) \<and>
          length (active_joint_models g) \<le> num_accelerations plant \<longrightarrow>
          (\<exists>lower upper. getAccelerationBounds g plant = Inr (lower, upper) \<and>
             (\<forall>j\<in>set (active_joint_models g). \<exists>k<num_velocities plant. joint_ordinal plant (joint_name j) = Some k \<and>
                lower ! k = (if acceleration_bounded (first_bounds j) then min_acceleration (first_bounds j) else Finite (- 100)) \<and>
                upper ! k = (if acceleration_bounded (first_bounds j) then max_acceleration (first_bounds j) else Finite 100)))"
  proof
    assume h: "consistent (active_joint_models g) plant (num_velocities plant) \<and>
          length (active_joint_models g) \<le> num_accelerations plant"
    then have c: "consistent (active_joint_models g) plant (num_velocities plant)" by simp
    then have l: "length (active_joint_models g) \<le> num_velocities plant" by (simp add: consistent_def)
    show "(\<exists>lower upper. getAccelerationBounds g plant = Inr (lower, upper) \<and>
      (\<forall>j\<in>set (active_joint_models g). \<exists>k<num_velocities plant. joint_ordinal plant (joint_name j) = Some k \<and>
         lower ! k = (if acceleration_bounded (first_bounds j) then min_acceleration (first_bounds j) else Finite (- 100)) \<and>
         upper ! k = (if acceleration_bounded (first_bounds j) then max_acceleration (first_bounds j) else Finite 100)))"
      using bounds_call_joints[OF c nb, of acceleration_bounded min_acceleration max_acceleration "Finite (- 100)" "Finite 100"] l h
      by (simp add: getPositionBounds_def getVelocityBounds_def getAccelerationBounds_def getJerkBounds_def numeric_limits_lowest_def numeric_limits_max_def kMaxVelocity_def kMaxAcceleration_def kMaxJerk_def)
  qed
  have d: "consistent (active_joint_models g) plant (num_velocities plant) \<longrightarrow>
          (\<exists>lower upper. getJerkBounds g plant = Inr (lower, upper) \<and>
             (\<forall>j\<in>set (active_joint_models g). \<exists>k<num_velocities plant. joint_ordinal plant (joint_name j) = Some k \<and>
                lower ! k = (if jerk_bounded (first_bounds j) then min_jerk (first_bounds j) else Finite (- 100)) \<and>
                upper ! k = (if jerk_bounded (first_bounds j) then max_jerk (first_bounds j) else Finite 100)))"
  proof
    assume h: "consistent (active_joint_models g) plant (num_velocities plant)"
    then have c: "consistent (active_joint_models g) plant (num_velocities plant)" by simp
    then have l: "length (active_joint_models g) \<le> num_velocities plant" by (simp add: consistent_def)
    show "(\<exists>lower upper. getJerkBounds g plant = Inr (lower, upper) \<and>
      (\<forall>j\<in>set (active_joint_models g). \<exists>k<num_velocities plant. joint_ordinal plant (joint_name j) = Some k \<and>
         lower ! k = (if jerk_bounded (first_bounds j) then min_jerk (first_bounds j) else Finite (- 100)) \<and>
         upper ! k = (if jerk_bounded (first_bounds j) then max_jerk (first_bounds j) else Finite 100)))"
      using bounds_call_joints[OF c nb, of jerk_bounded min_jerk max_jerk "Finite (- 100)" "Finite 100"] l h
      by (simp add: getPositionBounds_def getVelocityBounds_def getAccelerationBounds_def getJerkBounds_def numeric_limits_lowest_def numeric_limits_max_def kMaxVelocity_def kMaxAcceleration_def kMaxJerk_def)
  qed
  have same: "bounds_joints bounded lo hi plant (active_joint_models g') acc =
              bounds_joints bounded lo hi plant (active_joint_models g) acc \<and>
              length (active_joint_models g') = length (active_joint_models g)"
    if "list_all2 (same_limits bounded lo hi) (active_joint_models g') (active_joint_models g)"
    for bounded lo hi acc and g' :: JointModelGroup
    using that bounds_joints_same_limits[OF that] by (simp add: list_all2_lengthD)
  have 1: "\<forall>g'. list_all2 (same_limits position_bounded min_position max_position) (active_joint_models g') (active_joint_models g) \<longrightarrow>
               getPositionBounds g' plant = getPositionBounds g plant"
  proof (intro allI impI)
    fix g' :: JointModelGroup
    assume h: "list_all2 (same_limits position_bounded min_position max_position) (active_joint_models g') (active_joint_models g)"
    show "getPositionBounds g' plant = getPositionBounds g plant"
      using same[OF h] by (simp add: getPositionBounds_def)
  qed
  have 2: "\<forall>g'. list_all2 (same_limits velocity_bounded min_velocity max_velocity) (active_joint_models g') (active_joint_models g) \<longrightarrow>
               getVelocityBounds g' plant = getVelocityBounds g plant"
  proof (intro allI impI)
    fix g' :: JointModelGroup
    assume h: "list_all2 (same_limits velocity_bounded min_velocity max_velocity) (active_joint_models g') (active_joint_models g)"
    show "getVelocityBounds g' plant = getVelocityBounds g plant"
      using same[OF h] by (simp add: getVelocityBounds_def)
  qed
  have 3: "\<forall>g'. list_all2 (same_limits acceleration_bounded min_acceleration max_acceleration) (active_joint_models g') (active_joint_models g) \<longrightarrow>
               getAccelerationBounds g' plant = getAccelerationBounds g plant"
  proof (intro allI impI)
    fix g' :: JointModelGroup
    assume h: "list_all2 (same_limits acceleration_bounded min_acceleration max_acceleration) (active_joint_models g') (active_joint_models g)"
    show "getAccelerationBounds g' plant = getAccelerationBounds g plant"
      using same[OF h] by (simp add: getAccelerationBounds_def)
  qed
  have 4: "\<forall>g'. list_all2 (same_limits jerk_bounded min_jerk max_jerk) (active_joint_models g') (active_joint_models g) \<longrightarrow>
               getJerkBounds g' plant = getJerkBounds g plant"
  proof (intro allI impI)
    fix g' :: JointModelGroup
    assume h: "list_all2 (same_limits jerk_bounded min_jerk max_jerk) (active_joint_models g') (active_joint_models g)"
    show "getJerkBounds g' plant = getJerkBounds g plant"
      using same[OF h] by (simp add: getJerkBounds_def)
  qed
  show ?thesis
    using a b c d 1 2 3 4 by blast
qed

theorem bounds_overwrite_witness:
  "consistent (active_joint_models arm) arm_plant (num_positions arm_plant) \<and>
   consistent (active_joint_models arm) arm_plant (num_velocities arm_plant) \<and>
   length (active_joint_models arm) \<le> num_accelerations arm_plant \<and>
   list_all (\<lambda>j. variable_bounds j \<noteq> []) (active_joint_models arm) \<and>
   list_all2 (same_limits position_bounded min_position max_position)
     (active_joint_models arm_retuned) (active_joint_models arm) \<and>
   getPositionBounds arm_retuned arm_plant = getPositionBounds arm arm_plant \<and>
   getPositionBounds arm arm_plant =
     Inr ([Finite (- DBL_MAX), Finite (- DBL_MAX), Finite (- 1)], [Finite DBL_MAX, Finite DBL_MAX, Finite 1]) \<and>
   getVelocityBounds arm_retuned arm_plant =
     Inr ([Finite (- 100), Finite (- 100), Finite (- 9)], [Finite 100, Finite 100, Finite 9])"
proof -
  have cp: "consistent (active_joint_models arm) arm_plant (num_positions arm_plant)"
    and cv: "consistent (active_joint_models arm) arm_plant (num_velocities arm_plant)"
    using arm_consistent by (simp_all add: arm_plant_def)
  have ca: "length (active_joint_models arm) \<le> num_accelerations arm_plant"
    by (simp add: arm_def arm_plant_def)
  have same: "list_all2 (same_limits position_bounded min_position max_position)
     (active_joint_models arm_retuned) (active_joint_models arm)"
    by (simp add: same_limits_def arm_retuned_def arm_def shoulder_def elbow_def
        shoulder_bounds_def elbow_bounds_def)
  from bounds_overwrite[OF arm_has_bounds] same
  have indep: "getPositionBounds arm_retuned arm_plant = getPositionBounds arm arm_plant"
    by blast
  have p: "getPositionBounds arm arm_plant =
     Inr ([Finite (- DBL_MAX), Finite (- DBL_MAX), Finite (- 1)], [Finite DBL_MAX, Finite DBL_MAX, Finite 1])"
    by (simp add: getPositionBounds_def arm_def arm_plant_def shoulder_def elbow_def
        shoulder_bounds_def elbow_bounds_def numeric_limits_lowest_def numeric_limits_max_def numeral_3_eq_3)
  have v: "getVelocityBounds arm_retuned arm_plant =
     Inr ([Finite (- 100), Finite (- 100), Finite (- 9)], [Finite 100, Finite 100, Finite 9])"
    by (simp add: getVelocityBounds_def arm_retuned_def arm_plant_def shoulder_def elbow_def
        shoulder_bounds_def elbow_bounds_def kMaxVelocity_def numeral_3_eq_3)
  show ?thesis
    using cp cv ca arm_has_bounds same indep p v by simp
qed

section \<open>Rounded arithmetic\<close>

lemma ulp_pos: "0 < ulp x"
  by (simp add: ulp_def)

lemma round_ties_even_of_int: "round_ties_even (of_int k) = k"
  by (simp add: round_ties_even_def)

lemma round_ties_even_le:
  assumes "m \<le> of_int k"
  shows "round_ties_even m \<le> k"
proof (cases "m = of_int k")
  case True
  then show ?thesis by (simp add: round_ties_even_of_int)
next
  case False
  then have "m < of_int k" using assms by simp
  then have "\<lfloor>m\<rfloor> < k" by (simp add: floor_less_iff)
  then show ?thesis by (simp add: round_ties_even_def)
qed

lemma round_ties_even_error: "\<bar>of_int (round_ties_even m) - m\<bar> \<le> 1 / 2"
  unfolding round_ties_even_def by (auto simp: abs_le_iff)

lemma DBL_MAX_large: "2 ^ 53 < DBL_MAX"
proof -
  have "(2 :: real) ^ 53 < 1 * 2 ^ 1023" by simp
  also have "\<dots> \<le> (2 - 1 / 2 ^ 52) * 2 ^ 1023"
    by (intro mult_right_mono) simp_all
  finally show ?thesis by (simp only: DBL_MAX_def)
qed

lemma binade_of_int:
  assumes "n \<noteq> 0"
  shows "binade (of_int n) = bitlen \<bar>n\<bar> - 1" "1 \<le> bitlen \<bar>n\<bar>"
proof -
  have a: "1 \<le> \<bar>n\<bar>" using assms by simp
  then show b: "1 \<le> bitlen \<bar>n\<bar>" by (simp add: bitlen_ge_iff_power)
  have "\<bar>real_of_int n\<bar> = of_int \<bar>n\<bar>" by simp
  moreover have "(1 :: real) \<le> of_int \<bar>n\<bar>" using a by linarith
  ultimately show "binade (of_int n) = bitlen \<bar>n\<bar> - 1"
    unfolding binade_def using b by (simp del: of_int_abs)
qed

text \<open>Every integer of magnitude below \<open>2 ^ 53\<close> is a double: rounding keeps it.\<close>

lemma round_double_int:
  assumes "\<bar>n\<bar> < 2 ^ 53"
  shows "round_double (of_int n) = Finite (of_int n)"
proof -
  have "\<exists>k. of_int n / ulp (of_int n) = of_int k"
  proof (cases "n = 0")
    case True
    then show ?thesis by (intro exI[of _ 0]) simp
  next
    case False
    define b where "b = bitlen \<bar>n\<bar>"
    from binade_of_int[OF False] have e: "binade (of_int n) = b - 1" and b1: "1 \<le> b"
      by (simp_all add: b_def)
    have b53: "b \<le> 53" using assms by (simp add: b_def bitlen_le_iff_power)
    have "ulp (of_int n) = 2 powi (- int (nat (53 - b)))"
      using b53 by (simp add: ulp_def e)
    also have "\<dots> = inverse (2 ^ nat (53 - b))"
      by (simp only: power_int_minus power_int_of_nat)
    finally have u: "ulp (of_int n) = inverse (2 ^ nat (53 - b))" .
    have "of_int n / ulp (of_int n) = of_int (n * 2 ^ nat (53 - b))"
      unfolding u by (simp add: divide_inverse)
    then show ?thesis by blast
  qed
  then obtain k where k: "of_int n / ulp (of_int n) = of_int k" by blast
  have y: "of_int (round_ties_even (of_int n / ulp (of_int n))) * ulp (of_int n) = of_int n"
    unfolding k round_ties_even_of_int
    using k ulp_pos[of "of_int n"] by (simp add: field_simps)
  have "\<bar>real_of_int n\<bar> < 2 ^ 53"
    using assms by (metis of_int_abs of_int_less_numeral_power_cancel_iff)
  then have "\<not> DBL_MAX < \<bar>real_of_int n\<bar>" using DBL_MAX_large by linarith
  then show ?thesis
    unfolding round_double_def y by simp
qed

lemma round_double_0: "round_double 0 = Finite 0"
  using round_double_int[of 0] by simp

lemma round_double_1: "round_double 1 = Finite 1"
  using round_double_int[of 1] by simp

lemma round_double_numeral:
  "\<bar>numeral k :: int\<bar> < 2 ^ 53 \<Longrightarrow> round_double (numeral k) = Finite (numeral k)"
  using round_double_int[of "numeral k"] by simp

lemma round_double_neg_numeral:
  "\<bar>numeral k :: int\<bar> < 2 ^ 53 \<Longrightarrow> round_double (- numeral k) = Finite (- numeral k)"
  using round_double_int[of "- numeral k"] by simp

text \<open>
  A value in the normal range rounds to the multiple \<open>k\<close> of its unit in the last
  place when it is nearer than half a unit to that multiple.
\<close>

lemma round_ties_even_eqI:
  assumes "\<bar>m - of_int k\<bar> < 1 / 2"
  shows "round_ties_even m = k"
proof -
  from assms have b: "m - of_int k < 1 / 2" "- (1 / 2) < m - of_int k" by linarith+
  show ?thesis
  proof (cases "of_int k \<le> m")
    case True
    then have "\<lfloor>m\<rfloor> = k" using b by (intro floor_unique) linarith+
    then show ?thesis using b by (simp only: round_ties_even_def if_True)
  next
    case False
    then have f: "\<lfloor>m\<rfloor> = k - 1" using b by (intro floor_unique) (simp, linarith)
    have "\<not> m - of_int (k - 1) < 1 / 2" "1 / 2 < m - of_int (k - 1)"
      using b by simp_all
    then show ?thesis
      unfolding round_ties_even_def f by simp
  qed
qed

lemma bitlen_eqI:
  assumes "2 ^ k \<le> a" "a < 2 ^ Suc k"
  shows "bitlen a = int k + 1"
proof -
  have "bitlen a \<le> int k + 1"
    using assms(2) by (simp add: bitlen_le_iff_power nat_add_distrib)
  moreover have "int k + 1 \<le> bitlen a"
    using assms(1) by (simp add: bitlen_ge_iff_power nat_add_distrib)
  ultimately show ?thesis by simp
qed

lemma binade_eqI:
  assumes lo: "2 powi e \<le> \<bar>x\<bar>" and hi: "\<bar>x\<bar> < 2 powi (e + 1)" and e: "- 1022 \<le> e"
  shows "binade x = e"
proof (cases "1 \<le> \<bar>x\<bar>")
  case True
  have e0: "0 \<le> e"
  proof (rule ccontr)
    assume "\<not> 0 \<le> e"
    then have "e + 1 \<le> 0" by simp
    then have "(2 :: real) powi (e + 1) \<le> 2 powi 0"
      by (intro power_int_increasing) simp_all
    then show False using hi True by simp
  qed
  define k where "k = nat e"
  have ek: "e = int k" using e0 by (simp add: k_def)
  have "(2 :: real) ^ k \<le> \<bar>x\<bar>" using lo by (simp add: ek)
  then have "real_of_int (2 ^ k) \<le> \<bar>x\<bar>" by simp
  then have a: "2 ^ k \<le> \<lfloor>\<bar>x\<bar>\<rfloor>" by (simp only: le_floor_iff)
  have "int k + 1 = int (Suc k)" by simp
  then have "(2 :: real) powi (int k + 1) = 2 ^ Suc k"
    by (simp only: power_int_of_nat)
  then have "\<bar>x\<bar> < 2 ^ Suc k"
    using hi unfolding ek by simp
  then have "\<bar>x\<bar> < real_of_int (2 ^ Suc k)" by simp
  then have b: "\<lfloor>\<bar>x\<bar>\<rfloor> < 2 ^ Suc k" by (simp only: floor_less_iff)
  from bitlen_eqI[OF a b] show ?thesis
    using True e0 by (simp add: binade_def ek)
next
  case False
  have e0: "e < 0"
  proof (rule ccontr)
    assume "\<not> e < 0"
    then have "(2 :: real) powi 0 \<le> 2 powi e"
      by (intro power_int_increasing) simp_all
    then show False using lo False by simp
  qed
  define k where "k = nat (- e - 1)"
  have ek: "e = - int (Suc k)" using e0 by (simp add: k_def)
  have pos: "0 < \<bar>x\<bar>"
    using lo zero_less_power_int[of "2 :: real" e] by linarith
  have "(2 :: real) powi e = inverse (2 ^ Suc k)"
    unfolding ek by (simp only: power_int_minus power_int_of_nat)
  then have "inverse (2 ^ Suc k) \<le> \<bar>x\<bar>" using lo by simp
  then have up: "1 / \<bar>x\<bar> \<le> 2 ^ Suc k"
    using pos by (simp add: field_simps)
  have "e + 1 = - int k" using ek by simp
  then have "(2 :: real) powi (e + 1) = inverse (2 ^ k)"
    by (simp only: power_int_minus power_int_of_nat)
  then have "\<bar>x\<bar> < inverse (2 ^ k)" using hi by simp
  then have dn: "2 ^ k < 1 / \<bar>x\<bar>"
    using pos by (simp add: field_simps)
  have "1 / \<bar>x\<bar> \<le> real_of_int (2 ^ Suc k)" using up by simp
  then have c1: "\<lceil>1 / \<bar>x\<bar>\<rceil> \<le> 2 ^ Suc k" by (simp only: ceiling_le_iff)
  have "real_of_int (2 ^ k) < 1 / \<bar>x\<bar>" using dn by simp
  then have c2: "2 ^ k < \<lceil>1 / \<bar>x\<bar>\<rceil>" by (simp only: less_ceiling_iff)
  have "bitlen (\<lceil>1 / \<bar>x\<bar>\<rceil> - 1) = int k + 1"
    by (rule bitlen_eqI) (use c1 c2 in simp_all)
  then show ?thesis
    using False e by (simp add: binade_def ek)
qed

lemma round_double_eqI:
  assumes lo: "2 powi e \<le> \<bar>x\<bar>" and hi: "\<bar>x\<bar> < 2 powi (e + 1)"
    and e: "- 1022 \<le> e" "e \<le> 1022"
    and k: "\<bar>x / 2 powi (e - 52) - of_int k\<bar> < 1 / 2"
  shows "round_double x = Finite (of_int k * 2 powi (e - 52))"
proof -
  define u :: real where "u = 2 powi (e - 52)"
  have u: "ulp x = u" "0 < u"
    using binade_eqI[OF lo hi e(1)] by (simp_all add: ulp_def u_def)
  have r: "round_ties_even (x / u) = k"
    using k unfolding u_def by (rule round_ties_even_eqI)
  have p: "2 powi (e + 1) = 2 ^ 53 * u"
  proof -
    have "e + 1 = 53 + (e - 52)" by simp
    then have "(2 :: real) powi (e + 1) = 2 powi (53 + (e - 52))" by (rule arg_cong)
    also have "\<dots> = 2 powi 53 * 2 powi (e - 52)"
      by (rule power_int_add) simp
    finally show ?thesis by (simp add: u_def)
  qed
  have "\<bar>x\<bar> / u < 2 ^ 53"
    using hi u(2) unfolding p by (simp add: field_simps)
  then have "\<bar>x / u\<bar> < 2 ^ 53" using u(2) by simp
  then have "\<bar>real_of_int k\<bar> < 2 ^ 53 + 1 / 2"
    using k unfolding u_def[symmetric] by linarith
  then have "\<bar>real_of_int k\<bar> < 2 ^ 53 + 1" by linarith
  then have "real_of_int \<bar>k\<bar> < real_of_int (2 ^ 53 + 1)" by simp
  then have "\<bar>k\<bar> < 2 ^ 53 + 1" by (simp only: of_int_less_iff)
  then have "\<bar>k\<bar> \<le> 2 ^ 53" by simp
  then have "real_of_int \<bar>k\<bar> \<le> real_of_int (2 ^ 53)" by (simp only: of_int_le_iff)
  then have kb: "\<bar>real_of_int k\<bar> \<le> 2 ^ 53" by simp
  have "\<bar>real_of_int k * u\<bar> = \<bar>real_of_int k\<bar> * u"
    using u(2) by (simp add: abs_mult)
  also have "\<dots> \<le> 2 ^ 53 * u"
    using kb u(2) by (intro mult_right_mono) simp_all
  also have "\<dots> = 2 powi (e + 1)" using p by simp
  also have "\<dots> \<le> 2 powi 1023"
    using e(2) by (intro power_int_increasing) simp_all
  also have "\<dots> = 1 * 2 ^ 1023" by simp
  also have "\<dots> \<le> (2 - 1 / 2 ^ 52) * 2 ^ 1023"
    by (intro mult_right_mono) simp_all
  finally have "\<not> DBL_MAX < \<bar>real_of_int k * u\<bar>"
    by (simp only: DBL_MAX_def not_less)
  then show ?thesis
    unfolding round_double_def u(1) r u_def[symmetric] by simp
qed

lemma round_double_half: "round_double (1 / 2) = Finite (1 / 2)"
  using round_double_eqI[of "- 1" "1 / 2" "2 ^ 52"] by simp

lemma round_double_neg_half: "round_double (- (1 / 2)) = Finite (- (1 / 2))"
  using round_double_eqI[of "- 1" "- (1 / 2)" "- (2 ^ 52)"] by simp

text \<open>Rounding keeps the sign, and a value at or below \<open>-1\<close> stays there.\<close>

lemma round_double_nonpos:
  assumes "x \<le> 0"
  shows "round_double x = NegInf \<or> (\<exists>r\<le>0. round_double x = Finite r)"
proof -
  have "x / ulp x \<le> of_int 0"
    using assms ulp_pos[of x] by (simp add: divide_le_0_iff)
  then have "round_ties_even (x / ulp x) \<le> 0" by (rule round_ties_even_le)
  then have "of_int (round_ties_even (x / ulp x)) * ulp x \<le> 0"
    using ulp_pos[of x] by (simp add: mult_le_0_iff)
  then show ?thesis
    using assms by (simp add: round_double_def signed_inf_def)
qed

lemma round_double_le_minus_one:
  assumes "x \<le> - 1"
  shows "round_double x = NegInf \<or> (\<exists>r\<le>- 1. round_double x = Finite r)"
proof -
  define a where "a = \<lfloor>\<bar>x\<bar>\<rfloor>"
  define b where "b = bitlen a"
  have x1: "1 \<le> \<bar>x\<bar>" using assms by simp
  then have a1: "1 \<le> a" by (simp add: a_def le_floor_iff)
  then have b1: "1 \<le> b" by (simp add: b_def bitlen_ge_iff_power)
  have e: "binade x = b - 1"
    using x1 b1 by (simp add: binade_def a_def b_def)
  have "2 ^ nat (b - 1) \<le> a"
    using bitlen_bounds[of a] a1 by (simp add: b_def)
  then have "(2 :: real) ^ nat (b - 1) \<le> of_int a"
    by (metis of_int_le_iff of_int_numeral of_int_power)
  also have "\<dots> \<le> \<bar>x\<bar>" by (simp add: a_def)
  finally have lo: "2 ^ nat (b - 1) \<le> - x" using assms by simp
  have p: "(2 :: real) ^ nat (b - 1) = 2 powi (b - 1)"
    using b1 by (simp add: power_int_def)
  have u: "2 powi (b - 1) = 2 ^ 52 * ulp x"
  proof -
    have "(2 :: real) powi (b - 1) = 2 powi (52 + (b - 1 - 52))" by simp
    also have "\<dots> = 2 powi 52 * 2 powi (b - 1 - 52)"
      by (rule power_int_add) simp
    finally show ?thesis by (simp add: ulp_def e)
  qed
  have "x \<le> - (2 ^ 52 * ulp x)" using lo p u by simp
  then have "x / ulp x \<le> - (2 ^ 52)"
    using ulp_pos[of x] by (simp add: field_simps)
  then have "x / ulp x \<le> of_int (- (2 ^ 52))" by simp
  then have "round_ties_even (x / ulp x) \<le> - (2 ^ 52)" by (rule round_ties_even_le)
  then have "real_of_int (round_ties_even (x / ulp x)) \<le> - (2 ^ 52)"
    by (metis of_int_le_iff of_int_minus of_int_numeral of_int_power)
  then have "of_int (round_ties_even (x / ulp x)) * ulp x \<le> - (2 ^ 52) * ulp x"
    using ulp_pos[of x] by (intro mult_right_mono) simp_all
  also have "\<dots> = - (2 powi (b - 1))" using u by simp
  also have "\<dots> \<le> - 1"
    using b1 p one_le_power[of "2 :: real" "nat (b - 1)"] by simp
  finally have "of_int (round_ties_even (x / ulp x)) * ulp x \<le> - 1" .
  then show ?thesis
    using assms by (simp add: round_double_def signed_inf_def)
qed

text \<open>A rounded value is within half a unit in the last place of the exact one.\<close>

lemma round_double_error:
  assumes "round_double x = Finite q"
  shows "\<bar>q - x\<bar> \<le> ulp x / 2"
proof -
  from assms have q: "q = of_int (round_ties_even (x / ulp x)) * ulp x"
    by (simp add: round_double_def signed_inf_def split: if_splits)
  have "\<bar>q - x\<bar> = \<bar>of_int (round_ties_even (x / ulp x)) - x / ulp x\<bar> * ulp x"
    unfolding q using ulp_pos[of x] by (simp add: abs_mult[symmetric] field_simps del: abs_mult)
  also have "\<dots> \<le> 1 / 2 * ulp x"
    using round_ties_even_error[of "x / ulp x"] ulp_pos[of x] by (intro mult_right_mono) simp_all
  finally show ?thesis by simp
qed

text \<open>
  The literal \<^verbatim>\<open>0.3\<close> is the double nearest to \<open>3/10\<close>, a little below it, and
  two quotients by it: \<^verbatim>\<open>1.0 / 0.3\<close> is above 3, and \<^verbatim>\<open>3.0 / 0.3\<close> is exactly
  10, where the quotient of the reals 3 and \<^verbatim>\<open>0.3\<close> is above 10.
\<close>

lemma double_three_tenths: "round_double (3 / 10) = Finite (5404319552844595 / 2 ^ 54)"
  using round_double_eqI[of "- 2" "3 / 10" 5404319552844595] by simp

lemma one_by_three_tenths:
  "ddiv (Finite 1) (round_double (3 / 10)) = Finite (7505999378950827 / 2 ^ 51)"
  using round_double_eqI[of 1 "1 / (5404319552844595 / 2 ^ 54)" 7505999378950827]
  by (simp add: ddiv_def double_three_tenths)

lemma three_by_three_tenths: "ddiv (Finite 3) (round_double (3 / 10)) = Finite 10"
  using round_double_eqI[of 3 "3 / (5404319552844595 / 2 ^ 54)" "10 * 2 ^ 49"]
  by (simp add: ddiv_def double_three_tenths)

lemma two_by_minus_three_halves:
  "ddiv (Finite 2) (Finite (- (3 / 2))) = Finite (- (6004799503160661 / 2 ^ 52))"
  using round_double_eqI[of 0 "2 / (- (3 / 2))" "- 6004799503160661"]
  by (simp add: ddiv_def)


section \<open>Resampling a continuous trajectory\<close>

lemma unpack_defined_step:
  assumes "unpack_defined tr plant js"
  shows "\<exists>wp. set_joint_values plant (traj_value tr t) (EvalDerivative tr t) js (new_RobotState m) = Inr wp"
proof -
  have "\<forall>j\<in>set js. \<exists>k. joint_ordinal plant (joint_name j) = Some k \<and>
          k < length (traj_value tr t) \<and> k < length (EvalDerivative tr t)"
  proof
    fix j assume j: "j \<in> set js"
    from assms have "case joint_ordinal plant (joint_name j) of None \<Rightarrow> False
                     | Some k \<Rightarrow> k < length (traj_value tr t) \<and> k < length (EvalDerivative tr t)"
      using j unfolding unpack_defined_def list_all_iff by blast
    then show "\<exists>k. joint_ordinal plant (joint_name j) = Some k \<and>
          k < length (traj_value tr t) \<and> k < length (EvalDerivative tr t)"
      by (cases "joint_ordinal plant (joint_name j)") simp_all
  qed
  from set_joint_values_result[OF this] show ?thesis by blast
qed

lemma resample_loop_returns:
  assumes ok: "unpack_defined tr plant js"
    and bound: "num_pts < 2 ^ 32"
  shows "i \<le> num_pts \<Longrightarrow>
         \<exists>wps. resample_loop tr plant js num_pts i t_prev rt =
                 Some (None, rt\<lparr>waypoints := waypoints rt @ wps\<rparr>) \<and>
               length wps = num_pts - i \<and>
               map snd wps =
                 map (\<lambda>k. dsub (sample_time (end_time tr) num_pts k)
                             (if k = i then t_prev else sample_time (end_time tr) num_pts (k - 1)))
                   [i ..< num_pts]"
proof (induction "num_pts - i" arbitrary: i t_prev rt)
  case 0
  then have "i = num_pts" by simp
  then have "resample_loop tr plant js num_pts i t_prev rt = Some (None, rt)"
    by (subst resample_loop.simps) simp
  then show ?case using \<open>i = num_pts\<close> by (intro exI[of _ "[]"]) simp
next
  case (Suc n)
  then have lt: "i < num_pts" by simp
  let ?t = "sample_time (end_time tr) num_pts i"
  from unpack_defined_step[OF ok, of ?t "traj_robot_model rt"] obtain wp where
    wp: "set_joint_values plant (traj_value tr ?t) (EvalDerivative tr ?t) js
           (new_RobotState (traj_robot_model rt)) = Inr wp"
    by blast
  let ?rt = "addSuffixWayPoint rt wp (dsub ?t t_prev)"
  have wrap: "(i + 1) mod 2 ^ 32 = i + 1"
    using lt bound by simp
  have step: "resample_loop tr plant js num_pts i t_prev rt =
              resample_loop tr plant js num_pts (i + 1) ?t ?rt"
    using wrap by (subst resample_loop.simps) (simp add: lt wp)
  have "n = num_pts - (i + 1)" "i + 1 \<le> num_pts" using Suc.hyps(2) lt by simp_all
  from Suc.hyps(1)[OF this, of ?t ?rt] obtain wps where
    r: "resample_loop tr plant js num_pts (i + 1) ?t ?rt =
          Some (None, ?rt\<lparr>waypoints := waypoints ?rt @ wps\<rparr>)"
    and len: "length wps = num_pts - (i + 1)"
    and ds: "map snd wps =
               map (\<lambda>k. dsub (sample_time (end_time tr) num_pts k)
                           (if k = i + 1 then ?t else sample_time (end_time tr) num_pts (k - 1)))
                 [i + 1 ..< num_pts]"
    by blast
  have same: "map (\<lambda>k. dsub (sample_time (end_time tr) num_pts k)
                           (if k = i + 1 then ?t else sample_time (end_time tr) num_pts (k - 1)))
                 [i + 1 ..< num_pts] =
              map (\<lambda>k. dsub (sample_time (end_time tr) num_pts k)
                           (if k = i then t_prev else sample_time (end_time tr) num_pts (k - 1)))
                 [i + 1 ..< num_pts]"
    by (rule map_cong) auto
  have "resample_loop tr plant js num_pts i t_prev rt =
          Some (None, rt\<lparr>waypoints := waypoints rt @ ((wp, dsub ?t t_prev) # wps)\<rparr>)"
    using step r by (simp add: addSuffixWayPoint_def)
  moreover have "length ((wp, dsub ?t t_prev) # wps) = num_pts - i"
    using len lt by simp
  moreover have "map snd ((wp, dsub ?t t_prev) # wps) =
                 map (\<lambda>k. dsub (sample_time (end_time tr) num_pts k)
                             (if k = i then t_prev else sample_time (end_time tr) num_pts (k - 1)))
                   [i ..< num_pts]"
    using ds same lt by (simp add: upt_conv_Cons)
  ultimately show ?case by blast
qed

lemma num_pts_of_Some:
  assumes q: "ddiv a b = Finite q" and lo: "0 \<le> \<lceil>q\<rceil> + 1" and hi: "\<lceil>q\<rceil> + 1 < 2 ^ 53"
  shows "num_pts_of a b = Some (nat (\<lceil>q\<rceil> + 1))"
proof -
  let ?n = "\<lceil>q\<rceil> + 1"
  have "\<bar>?n\<bar> < 2 ^ 53" using lo hi by simp
  from round_double_int[OF this]
  have r: "round_double (of_int \<lceil>q\<rceil> + 1) = Finite (of_int ?n)" by simp
  have s: "dadd (dceil (ddiv a b)) (Finite 1) = Finite (of_int ?n)"
    unfolding q by (simp add: dadd_def r)
  have a: "(- 1 < (of_int ?n :: real)) = (0 \<le> ?n)"
    by linarith
  have "?n < 2 ^ 64" using hi by simp
  then have b: "((of_int ?n :: real) < 2 ^ 64) = True"
    by (metis of_int_less_iff of_int_numeral of_int_power)
  have c: "(0 \<le> (of_int ?n :: real)) = (0 \<le> ?n)"
    by linarith
  show ?thesis
    unfolding num_pts_of_def s size_t_of_double_def double.case a b c floor_of_int
    using lo by simp
qed

lemma num_pts_of_None:
  assumes "ddiv a b = NegInf \<or> (\<exists>q\<le>- 2. ddiv a b = Finite q)"
  shows "num_pts_of a b = None"
  using assms
proof
  assume "ddiv a b = NegInf"
  then show ?thesis by (simp add: num_pts_of_def dadd_def size_t_of_double_def)
next
  assume "\<exists>q\<le>- 2. ddiv a b = Finite q"
  then obtain q where q: "q \<le> - 2" "ddiv a b = Finite q" by blast
  then have "\<lceil>q\<rceil> \<le> - 2" by (simp add: ceiling_le_iff)
  then have "real_of_int \<lceil>q\<rceil> + 1 \<le> - 1" by linarith
  from round_double_le_minus_one[OF this]
  have "size_t_of_double (round_double (real_of_int \<lceil>q\<rceil> + 1)) = None"
    by (auto simp: size_t_of_double_def)
  then show ?thesis by (simp add: num_pts_of_def q(2) dadd_def)
qed

lemma num_pts_of_zero_step:
  assumes "0 \<le> e"
  shows "num_pts_of (Finite e) (Finite 0) = None"
  by (simp add: num_pts_of_def ddiv_def dadd_def size_t_of_double_def signed_inf_def)

lemma quotient_nonpos:
  assumes "0 \<le> e" "d < 0"
  shows "ddiv (Finite e) (Finite d) = NegInf \<or> (\<exists>q\<le>0. ddiv (Finite e) (Finite d) = Finite q)"
proof -
  have "e / d \<le> 0" using assms by (simp add: divide_nonneg_neg)
  from round_double_nonpos[OF this] show ?thesis
    using assms(2) by (simp add: ddiv_def)
qed

lemma resample_loop_endless:
  assumes "resample_loop tr plant js num_pts i t_prev rt = Some y"
  shows "\<not> (2 ^ 32 \<le> num_pts \<and> i < 2 ^ 32 \<and> unpack_defined tr plant js)"
proof (rule resample_loop.raw_induct
    [where P = "\<lambda>tr plant js num_pts i t_prev rt y.
                  \<not> (2 ^ 32 \<le> num_pts \<and> i < 2 ^ 32 \<and> unpack_defined tr plant js)",
     OF _ assms])
  fix f :: "Trajectory \<Rightarrow> MultibodyPlant \<Rightarrow> JointModel list \<Rightarrow> nat \<Rightarrow> nat \<Rightarrow> double \<Rightarrow> RobotTrajectory \<Rightarrow>
            (error option \<times> RobotTrajectory) option"
  fix tr plant js num_pts i t_prev rt y
  assume ih: "\<And>tr plant js num_pts i t_prev rt y.
                f tr plant js num_pts i t_prev rt = Some y \<Longrightarrow>
                \<not> (2 ^ 32 \<le> num_pts \<and> i < 2 ^ 32 \<and> unpack_defined tr plant js)"
    and body: "(if i < num_pts
      then case set_joint_values plant
                 (traj_value tr (sample_time (end_time tr) num_pts i))
                 (EvalDerivative tr (sample_time (end_time tr) num_pts i))
                 js (new_RobotState (traj_robot_model rt)) of
           Inl e \<Rightarrow> Some (Some e, rt)
           | Inr waypoint \<Rightarrow>
               f tr plant js num_pts
                ((i + 1) mod 2 ^ 32) (sample_time (end_time tr) num_pts i)
                (addSuffixWayPoint rt waypoint
                  (dsub (sample_time (end_time tr) num_pts i) t_prev))
      else Some (None, rt)) = Some y"
  show "\<not> (2 ^ 32 \<le> num_pts \<and> i < 2 ^ 32 \<and> unpack_defined tr plant js)"
  proof
    assume a: "2 ^ 32 \<le> num_pts \<and> i < 2 ^ 32 \<and> unpack_defined tr plant js"
    then have lt: "i < num_pts" by simp
    let ?t = "sample_time (end_time tr) num_pts i"
    from a unpack_defined_step[of tr plant js ?t "traj_robot_model rt"] obtain wp where
      wp: "set_joint_values plant (traj_value tr ?t) (EvalDerivative tr ?t) js
             (new_RobotState (traj_robot_model rt)) = Inr wp"
      by blast
    from body have "f tr plant js num_pts ((i + 1) mod 2 ^ 32) ?t
                        (addSuffixWayPoint rt wp (dsub ?t t_prev)) = Some y"
      by (simp add: lt wp)
    from ih[OF this] a show False by simp
  qed
qed

lemma getRobotTrajectory_count:
  assumes q: "ddiv (end_time tr) delta_t = Finite q"
    and lo: "0 \<le> \<lceil>q\<rceil> + 1" and hi: "\<lceil>q\<rceil> + 1 < 2 ^ 32"
    and g: "traj_group rt = Some g"
    and ok: "unpack_defined tr plant (active_joint_models g)"
  shows "\<exists>wps. getRobotTrajectory tr delta_t plant rt = Some (None, rt\<lparr>waypoints := wps\<rparr>) \<and>
               int (length wps) = \<lceil>q\<rceil> + 1 \<and>
               map snd wps =
                 map (\<lambda>k. dsub (sample_time (end_time tr) (nat (\<lceil>q\<rceil> + 1)) k)
                             (if k = 0 then Finite 0
                              else sample_time (end_time tr) (nat (\<lceil>q\<rceil> + 1)) (k - 1)))
                   [0 ..< nat (\<lceil>q\<rceil> + 1)]"
proof -
  let ?n = "nat (\<lceil>q\<rceil> + 1)"
  have "\<lceil>q\<rceil> + 1 < 2 ^ 53" using hi by simp
  from num_pts_of_Some[OF q lo this]
  have n: "num_pts_of (end_time tr) delta_t = Some ?n" .
  have b: "?n < 2 ^ 32" using hi lo by (simp add: nat_less_iff)
  from resample_loop_returns[OF ok b, of 0 "Finite 0" "clear rt"] obtain wps where
    r: "resample_loop tr plant (active_joint_models g) ?n 0 (Finite 0) (clear rt) =
          Some (None, (clear rt)\<lparr>waypoints := waypoints (clear rt) @ wps\<rparr>)"
    and len: "length wps = ?n - 0"
    and ds: "map snd wps =
               map (\<lambda>k. dsub (sample_time (end_time tr) ?n k)
                           (if k = 0 then Finite 0 else sample_time (end_time tr) ?n (k - 1)))
                 [0 ..< ?n]"
    by blast
  have "getRobotTrajectory tr delta_t plant rt = Some (None, rt\<lparr>waypoints := wps\<rparr>)"
    using n g r by (simp add: getRobotTrajectory_def clear_def)
  moreover have "int (length wps) = \<lceil>q\<rceil> + 1" using len lo by simp
  ultimately show ?thesis using ds by auto
qed

lemma ramp_unpack_defined: "unpack_defined (ramp e) arm_plant (active_joint_models arm)"
  by (simp add: unpack_defined_def ramp_def arm_def arm_plant_def shoulder_def elbow_def)

lemma t_scale_single: "t_scale_of (Suc 0) 0 = NaN"
  by (simp add: t_scale_of_def double_of_nat_def round_double_0 ddiv_def)

lemma sample_time_single: "sample_time end_t (Suc 0) 0 = NaN"
  by (simp add: sample_time_def t_scale_single dmin_def dmul_def)

lemma resample_single:
  "resample_loop (ramp e) arm_plant (active_joint_models arm) (Suc 0) 0 (Finite 0) (clear arm_output) =
     Some (None, arm_output\<lparr>waypoints := [(nan_sample, NaN)]\<rparr>)"
  apply (subst resample_loop.simps)
  apply (simp add: sample_time_single)
  apply (subst resample_loop.simps)
  apply (simp add: ramp_def arm_def arm_plant_def shoulder_def elbow_def new_RobotState_def
      clear_def arm_output_def addSuffixWayPoint_def nan_sample_def dsub_def exact_sub_def
      sample_time_single)
  done

lemma getRobotTrajectory_undefined:
  assumes "num_pts_of (end_time tr) delta_t = None"
  shows "getRobotTrajectory tr delta_t plant out = Some (Some UndefinedConversion, clear out)"
  using assms by (simp add: getRobotTrajectory_def)

lemma num_pts_examples:
  "num_pts_of (Finite 0) (Finite 1) = Some 1"
  "num_pts_of (Finite 2) (Finite 1) = Some 3"
  "num_pts_of (Finite 1) (round_double (3 / 10)) = Some 5"
  "num_pts_of (Finite 3) (round_double (3 / 10)) = Some 11"
  "num_pts_of (Finite 2) (Finite (- (3 / 2))) = Some 0"
  "num_pts_of (Finite 2) (Finite (- 4)) = Some 1"
  "num_pts_of (Finite 1) (Finite (- (1 / 2))) = None"
proof -
  have "ddiv (Finite 0) (Finite 1) = Finite 0"
    by (simp add: ddiv_def round_double_0)
  from num_pts_of_Some[OF this] show "num_pts_of (Finite 0) (Finite 1) = Some 1"
    by simp
  have "ddiv (Finite 2) (Finite 1) = Finite 2"
    by (simp add: ddiv_def round_double_numeral)
  from num_pts_of_Some[OF this] show "num_pts_of (Finite 2) (Finite 1) = Some 3"
    by simp
  have "\<lceil>7505999378950827 / 2 ^ 51 :: real\<rceil> = 4"
    by (simp add: ceiling_eq_iff)
  with num_pts_of_Some[OF one_by_three_tenths]
  show "num_pts_of (Finite 1) (round_double (3 / 10)) = Some 5"
    by simp
  from num_pts_of_Some[OF three_by_three_tenths]
  show "num_pts_of (Finite 3) (round_double (3 / 10)) = Some 11"
    by simp
  have "\<lceil>- (6004799503160661 / 2 ^ 52) :: real\<rceil> = - 1"
    by (simp add: ceiling_eq_iff)
  with num_pts_of_Some[OF two_by_minus_three_halves]
  show "num_pts_of (Finite 2) (Finite (- (3 / 2))) = Some 0"
    by simp
  have "ddiv (Finite 2) (Finite (- 4)) = Finite (- (1 / 2))"
    by (simp add: ddiv_def round_double_neg_half)
  moreover have "\<lceil>- (1 / 2) :: real\<rceil> = 0"
    by (simp add: ceiling_eq_iff)
  ultimately show "num_pts_of (Finite 2) (Finite (- 4)) = Some 1"
    using num_pts_of_Some[of "Finite 2" "Finite (- 4)" "- (1 / 2)"] by simp
  have "ddiv (Finite 1) (Finite (- (1 / 2))) = Finite (- 2)"
    by (simp add: ddiv_def round_double_neg_numeral)
  then show "num_pts_of (Finite 1) (Finite (- (1 / 2))) = None"
    by (intro num_pts_of_None) simp
qed

text \<open>
  Rounding decides the count: with end time \<^verbatim>\<open>3.0\<close> and interval \<^verbatim>\<open>0.3\<close> the
  quotient of the two as reals is above 10, its ceiling 11, but the double quotient is
  10 and the resampler appends 11 waypoints, not 12.
\<close>

lemma resample_rounded_quotient:
  "\<lceil>(3 :: real) / (5404319552844595 / 2 ^ 54)\<rceil> + 1 = 12 \<and>
   (\<exists>wps. getRobotTrajectory (ramp 3) (round_double (3 / 10)) arm_plant arm_output =
            Some (None, arm_output\<lparr>waypoints := wps\<rparr>) \<and>
          length wps = 11)"
proof -
  have c: "\<lceil>(3 :: real) / (5404319552844595 / 2 ^ 54)\<rceil> = 11"
    by (simp add: ceiling_eq_iff)
  have q: "ddiv (end_time (ramp 3)) (round_double (3 / 10)) = Finite 10"
    using three_by_three_tenths by (simp add: ramp_def)
  have g: "traj_group arm_output = Some arm" by (simp add: arm_output_def)
  from getRobotTrajectory_count[OF q _ _ g ramp_unpack_defined] obtain wps where
    "getRobotTrajectory (ramp 3) (round_double (3 / 10)) arm_plant arm_output =
       Some (None, arm_output\<lparr>waypoints := wps\<rparr>)" "int (length wps) = \<lceil>10 :: real\<rceil> + 1"
    by auto
  then show ?thesis using c by auto
qed

text \<open>
  Claim C5, as amended. Let \<open>q\<close> be the quotient \<^verbatim>\<open>end_time / delta_t\<close> as the
  division of doubles returns it, a finite double, and \<open>N = ceil q + 1\<close>. When
  \<open>0 \<le> N\<close> and \<open>N < 2 ^ 32\<close> and the output trajectory has a group whose joints can
  be unpacked, the resampler returns normally and the output holds exactly \<open>N\<close>
  waypoints, whatever it held before. With end time \<^verbatim>\<open>1.0\<close> and interval
  \<^verbatim>\<open>0.3\<close> the number of points is 5.
\<close>

theorem resample_count:
  assumes q: "ddiv (end_time tr) delta_t = Finite q"
    and lo: "0 \<le> \<lceil>q\<rceil> + 1" and hi: "\<lceil>q\<rceil> + 1 < 2 ^ 32"
    and g: "traj_group rt = Some g"
    and ok: "unpack_defined tr plant (active_joint_models g)"
  shows "(\<exists>wps. getRobotTrajectory tr delta_t plant rt = Some (None, rt\<lparr>waypoints := wps\<rparr>) \<and>
                int (length wps) = \<lceil>q\<rceil> + 1) \<and>
         num_pts_of (Finite 1) (round_double (3 / 10)) = Some 5"
  using getRobotTrajectory_count[OF assms] num_pts_examples(3) by blast

theorem resample_count_witness:
  "ddiv (end_time (ramp 1)) (round_double (3 / 10)) = Finite (7505999378950827 / 2 ^ 51) \<and>
   0 \<le> \<lceil>7505999378950827 / 2 ^ 51 :: real\<rceil> + 1 \<and>
   \<lceil>7505999378950827 / 2 ^ 51 :: real\<rceil> + 1 < 2 ^ 32 \<and>
   traj_group arm_output = Some arm \<and>
   unpack_defined (ramp 1) arm_plant (active_joint_models arm) \<and>
   (\<exists>wps. getRobotTrajectory (ramp 1) (round_double (3 / 10)) arm_plant arm_output =
            Some (None, arm_output\<lparr>waypoints := wps\<rparr>) \<and>
          length wps = 5)"
proof -
  have q: "ddiv (end_time (ramp 1)) (round_double (3 / 10)) = Finite (7505999378950827 / 2 ^ 51)"
    using one_by_three_tenths by (simp add: ramp_def)
  have c: "\<lceil>7505999378950827 / 2 ^ 51 :: real\<rceil> = 4"
    by (simp add: ceiling_eq_iff)
  have lo: "0 \<le> \<lceil>7505999378950827 / 2 ^ 51 :: real\<rceil> + 1"
    and hi: "\<lceil>7505999378950827 / 2 ^ 51 :: real\<rceil> + 1 < 2 ^ 32"
    unfolding c by simp_all
  have g: "traj_group arm_output = Some arm" by (simp add: arm_output_def)
  from resample_count[OF q lo hi g ramp_unpack_defined] obtain wps where
    "getRobotTrajectory (ramp 1) (round_double (3 / 10)) arm_plant arm_output =
       Some (None, arm_output\<lparr>waypoints := wps\<rparr>)"
    "int (length wps) = \<lceil>7505999378950827 / 2 ^ 51 :: real\<rceil> + 1"
    by blast
  then have "\<exists>wps. getRobotTrajectory (ramp 1) (round_double (3 / 10)) arm_plant arm_output =
            Some (None, arm_output\<lparr>waypoints := wps\<rparr>) \<and> length wps = 5"
    unfolding c by auto
  then show ?thesis using q lo hi g ramp_unpack_defined by blast
qed

text \<open>
  The count fails outside these bounds: with end time 1 and interval \<open>-1/2\<close> the
  quotient is \<open>-2\<close>, the number \<open>N\<close> is \<open>-1\<close> and the conversion to
  \<^verbatim>\<open>size_t\<close> is undefined; with end time \<open>2 ^ 32\<close> and interval 1 the 32-bit
  counter never reaches \<open>N = 2 ^ 32 + 1\<close> and the call does not return.
\<close>

theorem resample_count_counterexample:
  "getRobotTrajectory (ramp 1) (Finite (- (1 / 2))) arm_plant arm_output =
     Some (Some UndefinedConversion, arm_output\<lparr>waypoints := []\<rparr>) \<and>
   ddiv (Finite 1) (Finite (- (1 / 2))) = Finite (- 2) \<and>
   \<lceil>- 2 :: real\<rceil> + 1 = - 1 \<and>
   getRobotTrajectory (ramp (2 ^ 32)) (Finite 1) arm_plant arm_output = None \<and>
   ddiv (Finite (2 ^ 32)) (Finite 1) = Finite (2 ^ 32) \<and>
   \<lceil>2 ^ 32 :: real\<rceil> + 1 = 2 ^ 32 + 1"
proof -
  have a: "getRobotTrajectory (ramp 1) (Finite (- (1 / 2))) arm_plant arm_output =
     Some (Some UndefinedConversion, arm_output\<lparr>waypoints := []\<rparr>)"
    using num_pts_examples(7) by (simp add: getRobotTrajectory_def ramp_def clear_def)
  have qa: "ddiv (Finite 1) (Finite (- (1 / 2))) = Finite (- 2)"
    by (simp add: ddiv_def round_double_neg_numeral)
  have qb: "ddiv (Finite (2 ^ 32)) (Finite 1) = Finite (2 ^ 32)"
    using round_double_int[of "2 ^ 32"] by (simp add: ddiv_def)
  have c: "\<lceil>2 ^ 32 :: real\<rceil> = 2 ^ 32"
    by (metis ceiling_of_int of_int_numeral of_int_power)
  have "num_pts_of (Finite (2 ^ 32)) (Finite 1) = Some (nat (\<lceil>2 ^ 32 :: real\<rceil> + 1))"
    by (rule num_pts_of_Some[OF qb]) (simp_all add: c)
  then have n: "num_pts_of (end_time (ramp (2 ^ 32))) (Finite 1) = Some (2 ^ 32 + 1)"
    unfolding c by (simp add: ramp_def nat_add_distrib nat_power_eq)
  have "resample_loop (ramp (2 ^ 32)) arm_plant (active_joint_models arm) (2 ^ 32 + 1) 0 (Finite 0)
          (clear arm_output) = None"
  proof (cases "resample_loop (ramp (2 ^ 32)) arm_plant (active_joint_models arm) (2 ^ 32 + 1) 0 (Finite 0)
          (clear arm_output)")
    case None
    then show ?thesis .
  next
    case (Some y)
    from resample_loop_endless[OF this] ramp_unpack_defined show ?thesis by simp
  qed
  then have b: "getRobotTrajectory (ramp (2 ^ 32)) (Finite 1) arm_plant arm_output = None"
    using n by (simp add: getRobotTrajectory_def clear_def arm_output_def)
  show ?thesis using a b qa qb c by simp
qed

text \<open>
  Claim C7. The code divides by \<open>N - 1\<close> without a guard. For a trajectory of end time
  0 and interval 1 there is a single sample, \<open>N = 1\<close>; its fraction is \<open>0 / 0\<close>, a
  NaN and not 0, and so is its sample time, which the resampler passes to the trajectory:
  the one waypoint it appends holds the ramp's value at NaN.
\<close>

theorem sample_fraction_single_point:
  "num_pts_of (Finite 0) (Finite 1) = Some 1 \<and>
   t_scale_of 1 0 = NaN \<and>
   sample_time (Finite 0) 1 0 = NaN \<and>
   getRobotTrajectory (ramp 0) (Finite 1) arm_plant arm_output =
     Some (None, arm_output\<lparr>waypoints := [(nan_sample, NaN)]\<rparr>)"
proof -
  have n: "num_pts_of (Finite 0) (Finite 1) = Some 1"
    by (rule num_pts_examples(1))
  then have "getRobotTrajectory (ramp 0) (Finite 1) arm_plant arm_output =
     Some (None, arm_output\<lparr>waypoints := [(nan_sample, NaN)]\<rparr>)"
    using resample_single[of 0]
    by (simp add: getRobotTrajectory_def ramp_def clear_def arm_output_def)
  then show ?thesis using n t_scale_single sample_time_single by simp
qed

text \<open>
  Claim C6. For the same input the only appended duration is NaN, and so is the elapsed
  time of the last waypoint, where the end time is 0.
\<close>

theorem resample_zero_duration:
  "getRobotTrajectory (ramp 0) (Finite 1) arm_plant arm_output =
     Some (None, arm_output\<lparr>waypoints := [(nan_sample, NaN)]\<rparr>) \<and>
   end_time (ramp 0) = Finite 0 \<and>
   map snd (waypoints (arm_output\<lparr>waypoints := [(nan_sample, NaN)]\<rparr>)) = [NaN] \<and>
   getWayPointDurationFromStart (arm_output\<lparr>waypoints := [(nan_sample, NaN)]\<rparr>) 0 = NaN"
proof -
  have n: "num_pts_of (Finite 0) (Finite 1) = Some 1"
    by (rule num_pts_examples(1))
  then have "getRobotTrajectory (ramp 0) (Finite 1) arm_plant arm_output =
     Some (None, arm_output\<lparr>waypoints := [(nan_sample, NaN)]\<rparr>)"
    using resample_single[of 0]
    by (simp add: getRobotTrajectory_def ramp_def clear_def arm_output_def)
  then show ?thesis
    by (simp add: ramp_def getWayPointDurationFromStart_def dadd_def)
qed

section \<open>Degenerate input\<close>

lemma packable_waypoint:
  assumes pk: "packable rt g plant" and i: "i < getWayPointCount rt"
  shows "\<exists>v. getJointPositionVector (getWayPoint rt i) (group_name g) plant = Inr v \<and>
             length v = num_positions plant"
proof -
  let ?st = "getWayPoint rt i"
  have mem: "waypoints rt ! i \<in> set (waypoints rt)"
    using i by (simp add: getWayPointCount_def)
  have grp: "joint_model_groups (robot_model ?st) (group_name g) = Some g"
    and vals: "list_all (\<lambda>j. variable_position ?st (joint_name j) \<noteq> None) (active_joint_models g)"
    using pk mem by (auto simp: packable_def list_all_iff getWayPoint_def)
  have cons: "consistent (active_joint_models g) plant (length (replicate (num_positions plant) (Finite 0)))"
    using pk by (simp add: packable_def)
  have len: "length (active_joint_models g) \<le> num_positions plant"
    using pk by (simp add: packable_def consistent_def)
  from pack_vector[OF cons vals] obtain v where
    "pack_joints (variable_position ?st) plant (active_joint_models g)
       (replicate (num_positions plant) (Finite 0)) = Inr v" "length v = num_positions plant"
    by auto
  then show ?thesis using grp len by (simp add: getJointPositionVector_def)
qed

lemma fit_waypoints_result:
  assumes "\<forall>i\<in>set idx. \<exists>v. getJointPositionVector (getWayPoint rt i) gname plant = Inr v"
  shows "\<exists>samples. fit_waypoints rt gname plant idx (breaks, acc) =
                     Inr (breaks @ map (getWayPointDurationFromStart rt) idx, acc @ samples) \<and>
                   length samples = length idx \<and>
                   (\<forall>n<length idx. getJointPositionVector (getWayPoint rt (idx ! n)) gname plant = Inr (samples ! n))"
  using assms
proof (induction idx arbitrary: breaks acc)
  case Nil
  then show ?case by simp
next
  case (Cons i idx)
  from Cons.prems obtain v where v: "getJointPositionVector (getWayPoint rt i) gname plant = Inr v"
    by auto
  have "\<forall>i\<in>set idx. \<exists>v. getJointPositionVector (getWayPoint rt i) gname plant = Inr v"
    using Cons.prems by simp
  from Cons.IH[OF this, of "breaks @ [getWayPointDurationFromStart rt i]" "acc @ [v]"]
  obtain samples where
    r: "fit_waypoints rt gname plant idx (breaks @ [getWayPointDurationFromStart rt i], acc @ [v]) =
          Inr ((breaks @ [getWayPointDurationFromStart rt i]) @ map (getWayPointDurationFromStart rt) idx,
               (acc @ [v]) @ samples)"
    and len: "length samples = length idx"
    and each: "\<forall>n<length idx. getJointPositionVector (getWayPoint rt (idx ! n)) gname plant = Inr (samples ! n)"
    by blast
  have "fit_waypoints rt gname plant (i # idx) (breaks, acc) =
          Inr (breaks @ map (getWayPointDurationFromStart rt) (i # idx), acc @ (v # samples))"
    using v r by simp
  moreover have "length (v # samples) = length (i # idx)" using len by simp
  moreover have "\<forall>n<length (i # idx).
                   getJointPositionVector (getWayPoint rt ((i # idx) ! n)) gname plant = Inr ((v # samples) ! n)"
    using v each by (auto simp: nth_Cons split: nat.splits)
  ultimately show ?case by blast
qed

lemma getPiecewisePolynomial_forwards:
  assumes pk: "packable rt g plant"
  shows "\<exists>samples. length samples = getWayPointCount rt \<and>
           (\<forall>i<getWayPointCount rt.
              getJointPositionVector (getWayPoint rt i) (group_name g) plant = Inr (samples ! i) \<and>
              length (samples ! i) = num_positions plant) \<and>
           getPiecewisePolynomial first_order_hold rt g plant =
             first_order_hold (map (getWayPointDurationFromStart rt) [0 ..< getWayPointCount rt]) samples"
proof -
  let ?n = "getWayPointCount rt"
  have "\<forall>i\<in>set [0 ..< ?n]. \<exists>v. getJointPositionVector (getWayPoint rt i) (group_name g) plant = Inr v"
  proof
    fix i assume "i \<in> set [0 ..< ?n]"
    then have "i < ?n" by simp
    from packable_waypoint[OF pk this]
    show "\<exists>v. getJointPositionVector (getWayPoint rt i) (group_name g) plant = Inr v" by blast
  qed
  from fit_waypoints_result[OF this, of "[]" "[]"] obtain samples where
    r: "fit_waypoints rt (group_name g) plant [0 ..< ?n] ([], []) =
          Inr (map (getWayPointDurationFromStart rt) [0 ..< ?n], samples)"
    and len: "length samples = ?n"
    and each: "\<forall>i<?n. getJointPositionVector (getWayPoint rt ([0 ..< ?n] ! i)) (group_name g) plant = Inr (samples ! i)"
    by auto
  have each': "\<forall>i<?n. getJointPositionVector (getWayPoint rt i) (group_name g) plant = Inr (samples ! i) \<and>
              length (samples ! i) = num_positions plant"
  proof (intro allI impI)
    fix i assume i: "i < ?n"
    then have a: "getJointPositionVector (getWayPoint rt i) (group_name g) plant = Inr (samples ! i)"
      using each by simp
    with packable_waypoint[OF pk i] show "getJointPositionVector (getWayPoint rt i) (group_name g) plant = Inr (samples ! i) \<and>
              length (samples ! i) = num_positions plant" by auto
  qed
  have "getPiecewisePolynomial first_order_hold rt g plant =
          first_order_hold (map (getWayPointDurationFromStart rt) [0 ..< ?n]) samples"
    using r by (simp add: getPiecewisePolynomial_def)
  then show ?thesis using len each' by blast
qed

lemma fit_waypoints_breaks:
  "fit_waypoints rt gname plant idx (breaks, acc) = Inr (bs, ss) \<Longrightarrow>
   bs = breaks @ map (getWayPointDurationFromStart rt) idx"
proof (induction idx arbitrary: breaks acc)
  case Nil
  then show ?case by simp
next
  case (Cons i idx)
  from Cons.prems obtain v where
    v: "getJointPositionVector (getWayPoint rt i) gname plant = Inr v"
    by (cases "getJointPositionVector (getWayPoint rt i) gname plant") auto
  with Cons.prems have
    "fit_waypoints rt gname plant idx (breaks @ [getWayPointDurationFromStart rt i], acc @ [v]) =
       Inr (bs, ss)"
    by simp
  from Cons.IH[OF this] show ?case by simp
qed

lemma FirstOrderHold_rejects:
  "length breaks < 2 \<or> \<not> strictly_increasing breaks \<Longrightarrow>
   FirstOrderHold breaks samples = Inl InvalidArgument"
  by (auto simp: FirstOrderHold_def)

lemma getPiecewisePolynomial_rejects:
  assumes "getWayPointCount rt < 2 \<or>
           \<not> strictly_increasing (map (getWayPointDurationFromStart rt) [0 ..< getWayPointCount rt])"
  shows "\<exists>err. getPiecewisePolynomial FirstOrderHold rt g plant = Inl err"
    and "packable rt g plant \<Longrightarrow> getPiecewisePolynomial FirstOrderHold rt g plant = Inl InvalidArgument"
proof -
  let ?bs = "map (getWayPointDurationFromStart rt) [0 ..< getWayPointCount rt]"
  have bad: "length ?bs < 2 \<or> \<not> strictly_increasing ?bs"
    using assms by simp
  show "\<exists>err. getPiecewisePolynomial FirstOrderHold rt g plant = Inl err"
  proof (cases "fit_waypoints rt (group_name g) plant [0 ..< getWayPointCount rt] ([], [])")
    case (Inl e)
    then show ?thesis by (simp add: getPiecewisePolynomial_def)
  next
    case (Inr r)
    obtain bs ss where r: "r = (bs, ss)" by (cases r)
    from fit_waypoints_breaks[OF Inr[unfolded r]] have "bs = ?bs" by simp
    then have "FirstOrderHold bs ss = Inl InvalidArgument"
      using FirstOrderHold_rejects[OF bad] by simp
    then show ?thesis using Inr r by (simp add: getPiecewisePolynomial_def)
  qed
  show "getPiecewisePolynomial FirstOrderHold rt g plant = Inl InvalidArgument"
    if "packable rt g plant"
  proof -
    from getPiecewisePolynomial_forwards[OF that, of FirstOrderHold] obtain samples where
      "getPiecewisePolynomial FirstOrderHold rt g plant = FirstOrderHold ?bs samples"
      by blast
    then show ?thesis using FirstOrderHold_rejects[OF bad] by simp
  qed
qed

lemma single_point_packable: "packable single_point arm arm_plant"
  using arm_consistent
  by (simp add: packable_def single_point_def arm_plant_def arm_state_def arm_model_def
      arm_def shoulder_def elbow_def)

lemma stalled_packable: "packable stalled arm arm_plant"
  using arm_consistent
  by (simp add: packable_def stalled_def arm_plant_def arm_state_def arm_model_def
      arm_def shoulder_def elbow_def)

lemma stalled_breaks:
  "getWayPointCount stalled = 2"
  "map (getWayPointDurationFromStart stalled) [0 ..< getWayPointCount stalled] = [Finite 1, Finite 1]"
  by (simp_all add: getWayPointCount_def getWayPointDurationFromStart_def stalled_def upt_rec
      dadd_def round_double_1 numeral_2_eq_2)

text \<open>
  Claim C4, as amended. The fitter hands the elapsed times of the waypoints to the
  first-order-hold constructor as breaks, so a motion plan with fewer than two waypoints
  or with elapsed times that are not strictly increasing yields no trajectory: the
  result is a failure, the constructor's invalid-argument failure when every waypoint
  can be packed. The resampler does not reject a sampling interval \<open>d \<le> 0\<close>. For a
  finite end time \<open>e \<ge> 0\<close> it clears the output and then, with \<open>q\<close> the quotient
  \<open>e / d\<close> as the division of doubles returns it, reaches the undefined conversion
  to \<^verbatim>\<open>size_t\<close> when \<open>d = 0\<close>, when \<open>q\<close> is the negative infinity or when
  \<open>q \<le> -2\<close>; returns normally with an empty output when \<open>-2 < q \<le> -1\<close>; and
  returns normally with one waypoint appended when \<open>-1 < q\<close>. For \<open>d < 0\<close> no other
  quotient occurs.
\<close>

theorem degenerate_input_handling:
  assumes e: "end_time tr = Finite e" "0 \<le> e" and d: "d \<le> 0"
    and grp: "traj_group out = Some g'" and ok: "unpack_defined tr plant (active_joint_models g')"
  shows "(getWayPointCount rt < 2 \<or>
          \<not> strictly_increasing (map (getWayPointDurationFromStart rt) [0 ..< getWayPointCount rt]) \<longrightarrow>
            (\<exists>err. getPiecewisePolynomial FirstOrderHold rt g plant = Inl err) \<and>
            (packable rt g plant \<longrightarrow>
               getPiecewisePolynomial FirstOrderHold rt g plant = Inl InvalidArgument)) \<and>
         (d = 0 \<or> ddiv (Finite e) (Finite d) = NegInf \<or> (\<exists>q\<le>- 2. ddiv (Finite e) (Finite d) = Finite q) \<longrightarrow>
            getRobotTrajectory tr (Finite d) plant out = Some (Some UndefinedConversion, clear out)) \<and>
         (d < 0 \<and> (\<exists>q. ddiv (Finite e) (Finite d) = Finite q \<and> - 2 < q \<and> q \<le> - 1) \<longrightarrow>
            getRobotTrajectory tr (Finite d) plant out = Some (None, clear out)) \<and>
         (d < 0 \<and> (\<exists>q. ddiv (Finite e) (Finite d) = Finite q \<and> - 1 < q) \<longrightarrow>
            (\<exists>wp dt. getRobotTrajectory tr (Finite d) plant out = Some (None, out\<lparr>waypoints := [(wp, dt)]\<rparr>))) \<and>
         (d < 0 \<longrightarrow>
            ddiv (Finite e) (Finite d) = NegInf \<or> (\<exists>q\<le>0. ddiv (Finite e) (Finite d) = Finite q))"
proof (intro conjI impI)
  assume bad: "getWayPointCount rt < 2 \<or>
          \<not> strictly_increasing (map (getWayPointDurationFromStart rt) [0 ..< getWayPointCount rt])"
  show "\<exists>err. getPiecewisePolynomial FirstOrderHold rt g plant = Inl err"
    by (rule getPiecewisePolynomial_rejects(1)[OF bad])
  show "getPiecewisePolynomial FirstOrderHold rt g plant = Inl InvalidArgument"
    if "packable rt g plant"
    by (rule getPiecewisePolynomial_rejects(2)[OF bad that])
next
  assume a: "d = 0 \<or> ddiv (Finite e) (Finite d) = NegInf \<or> (\<exists>q\<le>- 2. ddiv (Finite e) (Finite d) = Finite q)"
  have "num_pts_of (end_time tr) (Finite d) = None"
  proof (cases "d = 0")
    case True
    then show ?thesis using num_pts_of_zero_step[OF e(2)] e(1) by simp
  next
    case False
    then have "ddiv (Finite e) (Finite d) = NegInf \<or> (\<exists>q\<le>- 2. ddiv (Finite e) (Finite d) = Finite q)"
      using a by simp
    from num_pts_of_None[OF this] show ?thesis using e(1) by simp
  qed
  then show "getRobotTrajectory tr (Finite d) plant out = Some (Some UndefinedConversion, clear out)"
    by (rule getRobotTrajectory_undefined)
next
  assume a: "d < 0 \<and> (\<exists>q. ddiv (Finite e) (Finite d) = Finite q \<and> - 2 < q \<and> q \<le> - 1)"
  then obtain q where q: "ddiv (end_time tr) (Finite d) = Finite q" and r: "- 2 < q" "q \<le> - 1"
    using e(1) by auto
  from r have c: "\<lceil>q\<rceil> = - 1" by (simp add: ceiling_eq_iff)
  from getRobotTrajectory_count[OF q _ _ grp ok] c obtain wps where
    "getRobotTrajectory tr (Finite d) plant out = Some (None, out\<lparr>waypoints := wps\<rparr>)"
    "int (length wps) = 0"
    by auto
  then show "getRobotTrajectory tr (Finite d) plant out = Some (None, clear out)"
    by (simp add: clear_def)
next
  assume a: "d < 0 \<and> (\<exists>q. ddiv (Finite e) (Finite d) = Finite q \<and> - 1 < q)"
  then obtain q where q: "ddiv (Finite e) (Finite d) = Finite q" and r: "- 1 < q"
    by auto
  from quotient_nonpos[OF e(2), of d] a q have "q \<le> 0" by auto
  then have c: "\<lceil>q\<rceil> = 0" using r by (simp add: ceiling_eq_iff)
  have q': "ddiv (end_time tr) (Finite d) = Finite q" using q e(1) by simp
  from getRobotTrajectory_count[OF q' _ _ grp ok] c obtain wps where
    w: "getRobotTrajectory tr (Finite d) plant out = Some (None, out\<lparr>waypoints := wps\<rparr>)"
    and "int (length wps) = 1"
    by auto
  then have "length wps = 1" by simp
  then obtain w where "wps = [w]" by (cases wps) auto
  then show "\<exists>wp dt. getRobotTrajectory tr (Finite d) plant out = Some (None, out\<lparr>waypoints := [(wp, dt)]\<rparr>)"
    using w by (cases w) auto
next
  assume "d < 0"
  from quotient_nonpos[OF e(2) this]
  show "ddiv (Finite e) (Finite d) = NegInf \<or> (\<exists>q\<le>0. ddiv (Finite e) (Finite d) = Finite q)" .
qed

theorem degenerate_input_handling_witness:
  "end_time (ramp 2) = Finite 2 \<and> (0 :: real) \<le> 2 \<and> (- 4 :: real) \<le> 0 \<and>
   traj_group arm_output = Some arm \<and>
   unpack_defined (ramp 2) arm_plant (active_joint_models arm) \<and>
   getWayPointCount single_point < 2 \<and> packable single_point arm arm_plant \<and>
   getPiecewisePolynomial FirstOrderHold single_point arm arm_plant = Inl InvalidArgument \<and>
   \<not> strictly_increasing (map (getWayPointDurationFromStart stalled) [0 ..< getWayPointCount stalled]) \<and>
   packable stalled arm arm_plant \<and>
   getPiecewisePolynomial FirstOrderHold stalled arm arm_plant = Inl InvalidArgument \<and>
   ddiv (Finite 2) (Finite (- 4)) = Finite (- (1 / 2)) \<and>
   (\<exists>wp dt. getRobotTrajectory (ramp 2) (Finite (- 4)) arm_plant arm_output =
              Some (None, arm_output\<lparr>waypoints := [(wp, dt)]\<rparr>))"
proof -
  have n: "getWayPointCount single_point < 2"
    by (simp add: getWayPointCount_def single_point_def)
  have s: "\<not> strictly_increasing (map (getWayPointDurationFromStart stalled) [0 ..< getWayPointCount stalled])"
    unfolding stalled_breaks(2) by simp
  have e: "end_time (ramp 2) = Finite 2" by (simp add: ramp_def)
  have g: "traj_group arm_output = Some arm" by (simp add: arm_output_def)
  have q: "ddiv (Finite 2) (Finite (- 4)) = Finite (- (1 / 2))"
    by (simp add: ddiv_def round_double_neg_half)
  note one = degenerate_input_handling[OF e _ _ g ramp_unpack_defined, of "- 4" single_point arm]
  note two = degenerate_input_handling[OF e _ _ g ramp_unpack_defined, of "- 4" stalled arm]
  from one n single_point_packable
  have a: "getPiecewisePolynomial FirstOrderHold single_point arm arm_plant = Inl InvalidArgument"
    by simp
  from two s stalled_packable
  have b: "getPiecewisePolynomial FirstOrderHold stalled arm arm_plant = Inl InvalidArgument"
    by simp
  from one q
  have c: "\<exists>wp dt. getRobotTrajectory (ramp 2) (Finite (- 4)) arm_plant arm_output =
              Some (None, arm_output\<lparr>waypoints := [(wp, dt)]\<rparr>)"
    by simp
  show ?thesis
    using n s e g q a b c single_point_packable stalled_packable ramp_unpack_defined by simp
qed

text \<open>
  With end time 2 the intervals \<open>-3/2\<close> and \<open>-4\<close> are not rejected: the call returns
  normally, the old waypoint of the output is gone, and for \<open>-4\<close> a waypoint has been
  appended.
\<close>

theorem resample_nonpositive_step_counterexample:
  "getRobotTrajectory (ramp 2) (Finite (- (3 / 2))) arm_plant arm_output =
     Some (None, arm_output\<lparr>waypoints := []\<rparr>) \<and>
   getRobotTrajectory (ramp 2) (Finite (- 4)) arm_plant arm_output =
     Some (None, arm_output\<lparr>waypoints := [(nan_sample, NaN)]\<rparr>) \<and>
   waypoints arm_output = [(arm_state, Finite 3)]"
proof -
  have a: "getRobotTrajectory (ramp 2) (Finite (- (3 / 2))) arm_plant arm_output =
     Some (None, arm_output\<lparr>waypoints := []\<rparr>)"
    using num_pts_examples(5)
    apply (simp add: getRobotTrajectory_def ramp_def clear_def arm_output_def)
    apply (subst resample_loop.simps)
    apply simp
    done
  have b: "getRobotTrajectory (ramp 2) (Finite (- 4)) arm_plant arm_output =
     Some (None, arm_output\<lparr>waypoints := [(nan_sample, NaN)]\<rparr>)"
    using num_pts_examples(6) resample_single[of 2]
    by (simp add: getRobotTrajectory_def ramp_def clear_def arm_output_def)
  show ?thesis using a b by (simp add: arm_output_def)
qed

section \<open>Fitting and resampling\<close>

lemma strictly_increasing_sorted:
  "strictly_increasing (map Finite bs) \<Longrightarrow> sorted_wrt (<) bs"
proof (induction bs rule: induct_list012)
  case (3 a b bs)
  then have ab: "a < b" and rest: "sorted_wrt (<) (b # bs)" by simp_all
  then have "\<forall>y\<in>set (b # bs). a < y" by (auto intro: less_trans)
  then show ?case using rest by simp
qed simp_all

lemma foh_segment_inside:
  assumes "sorted_wrt (<) bs" "length ss = length bs" "k + 1 < length bs"
    "bs ! k \<le> t" "t < bs ! (k + 1) \<or> k + 2 = length bs"
  shows "foh_segment (map Finite bs) ss (Finite t) =
           Some (Finite (bs ! k), Finite (bs ! (k + 1)), ss ! k, ss ! (k + 1))"
  using assms
proof (induction bs arbitrary: ss k)
  case Nil
  then show ?case by simp
next
  case (Cons b0 bs)
  from Cons.prems(3) obtain b1 bs' where bs: "bs = b1 # bs'" by (cases bs) auto
  from Cons.prems(2) bs obtain s0 s1 ss' where ss: "ss = s0 # s1 # ss'"
    by (cases ss; cases "tl ss") auto
  show ?case
  proof (cases k)
    case 0
    then have "t < b1 \<or> bs' = []" using Cons.prems(5) bs by simp
    then show ?thesis using 0 bs ss by auto
  next
    case (Suc k')
    have k': "k' + 1 < length bs" using Cons.prems(3) Suc by simp
    have "b1 \<le> bs ! k'"
    proof (cases k')
      case 0
      then show ?thesis using bs by simp
    next
      case (Suc n)
      have "sorted_wrt (<) bs" using Cons.prems(1) by simp
      moreover have "0 < k'" "k' < length bs" using k' Suc by simp_all
      ultimately have "bs ! 0 < bs ! k'" by (rule sorted_wrt_nth_less)
      then show ?thesis using bs by simp
    qed
    then have ge: "\<not> t < b1" using Cons.prems(4) Suc by simp
    have ne: "bs' \<noteq> []" using k' bs by auto
    have "foh_segment (map Finite bs) (s1 # ss') (Finite t) =
            Some (Finite (bs ! k'), Finite (bs ! (k' + 1)), (s1 # ss') ! k', (s1 # ss') ! (k' + 1))"
      using Cons.prems Suc ss by (intro Cons.IH) simp_all
    then show ?thesis using ge ne bs ss Suc by simp
  qed
qed

lemma interpolate_finite:
  "t0 \<noteq> t1 \<Longrightarrow>
   interpolate (Finite t0) (Finite t1) (Finite t) (Finite a) (Finite b) =
     Finite (a + (t - t0) / (t1 - t0) * (b - a))"
  by (simp add: interpolate_def exact_sub_def)

lemma slope_finite:
  "t0 \<noteq> t1 \<Longrightarrow> slope (Finite t0) (Finite t1) (Finite a) (Finite b) = Finite ((b - a) / (t1 - t0))"
  by (simp add: slope_def exact_sub_def)

lemma first_order_hold_segment:
  assumes foh: "FirstOrderHold (map Finite bs) ss = Inr tr"
    and len: "length ss = length bs" and k: "k + 1 < length bs"
    and t: "bs ! k \<le> t" "t < bs ! (k + 1) \<or> k + 2 = length bs"
  shows "traj_value tr (Finite t) =
           map2 (interpolate (Finite (bs ! k)) (Finite (bs ! (k + 1))) (Finite t)) (ss ! k) (ss ! (k + 1)) \<and>
         EvalDerivative tr (Finite t) =
           map2 (slope (Finite (bs ! k)) (Finite (bs ! (k + 1)))) (ss ! k) (ss ! (k + 1)) \<and>
         end_time tr = Finite (last bs)"
proof -
  from foh have inc: "strictly_increasing (map Finite bs)"
    and tr: "tr = \<lparr>end_time = last (map Finite bs), traj_value = foh_value (map Finite bs) ss,
                  EvalDerivative = foh_derivative (map Finite bs) ss\<rparr>"
    by (auto simp: FirstOrderHold_def split: if_splits)
  have ne: "bs \<noteq> []" using k by auto
  from foh_segment_inside[OF strictly_increasing_sorted[OF inc] len k t]
  show ?thesis using ne by (simp add: tr foh_value_def foh_derivative_def last_map)
qed

lemma two_point_fit: "getPiecewisePolynomial FirstOrderHold two_point arm arm_plant = Inr fitted"
  by (simp add: getPiecewisePolynomial_def getWayPointCount_def two_point_def upt_rec
      getWayPoint_def getJointPositionVector_def posed_def arm_model_def arm_def arm_plant_def
      shoulder_def elbow_def numeral_3_eq_3 getWayPointDurationFromStart_def
      dadd_def round_double_0 round_double_numeral FirstOrderHold_def fitted_def)

lemma fitted_value: "traj_value fitted (Finite t) = [Finite t, Finite 0, Finite t]"
  by (simp add: fitted_def foh_value_def interpolate_def exact_sub_def)

lemma fitted_derivative: "EvalDerivative fitted (Finite t) = [Finite 1, Finite 0, Finite 1]"
  by (simp add: fitted_def foh_derivative_def slope_def exact_sub_def)

lemma fitted_sample_times:
  "sample_time (Finite 2) 3 0 = Finite 0"
  "sample_time (Finite 2) 3 (Suc 0) = Finite 1"
  "sample_time (Finite 2) 3 (Suc (Suc 0)) = Finite 2"
  by (simp_all add: sample_time_def t_scale_of_def double_of_nat_def dmin_def ddiv_def dmul_def
      round_double_0 round_double_1 round_double_numeral round_double_half)

lemma fitted_unpack:
  "set_joint_values arm_plant [Finite t, Finite 0, Finite t] [Finite 1, Finite 0, Finite 1]
     (active_joint_models arm) (new_RobotState arm_model) = Inr (moving t)"
  by (simp add: arm_def arm_plant_def shoulder_def elbow_def new_RobotState_def moving_def)

lemma fitted_resample:
  "getRobotTrajectory fitted (Finite 1) arm_plant arm_output =
     Some (None, arm_output\<lparr>waypoints :=
             [(moving 0, Finite 0), (moving 1, Finite 1), (moving 2, Finite 1)]\<rparr>)"
proof -
  have e: "end_time fitted = Finite 2" by (simp add: fitted_def)
  have n: "num_pts_of (Finite 2) (Finite 1) = Some 3"
    by (rule num_pts_examples(2))
  have m: "traj_robot_model (clear arm_output) = arm_model" "traj_group (clear arm_output) = Some arm"
    by (simp_all add: clear_def arm_output_def)
  have "resample_loop fitted arm_plant (active_joint_models arm) 3 0 (Finite 0) (clear arm_output) =
     Some (None, arm_output\<lparr>waypoints :=
             [(moving 0, Finite 0), (moving 1, Finite 1), (moving 2, Finite 1)]\<rparr>)"
    apply (subst resample_loop.simps)
    apply (simp add: e fitted_sample_times fitted_value fitted_derivative fitted_unpack
        addSuffixWayPoint_def clear_def arm_output_def dsub_def exact_sub_def round_double_0)
    apply (subst resample_loop.simps)
    apply (simp add: e fitted_sample_times fitted_value fitted_derivative fitted_unpack
        addSuffixWayPoint_def dsub_def exact_sub_def round_double_1)
    apply (subst resample_loop.simps)
    apply (simp add: e fitted_sample_times fitted_value fitted_derivative fitted_unpack
        addSuffixWayPoint_def dsub_def exact_sub_def round_double_1)
    apply (subst resample_loop.simps)
    apply simp
    done
  then show ?thesis using n m by (simp add: getRobotTrajectory_def e)
qed

text \<open>
  Claim C2. Fitting the two waypoints \<open>(t = 0, pos = 0)\<close> and \<open>(t = 2, pos = 2)\<close> gives
  the first-order hold \<open>fitted\<close> with end time 2, and resampling it with interval 1
  gives exactly three waypoints, at positions 0, 1 and 2, each with velocity 1, appended
  with the durations 0, 1 and 1. For every first-order hold over finite, accepted
  breaks, a time \<open>t\<close> in the segment from break \<open>k\<close> to break \<open>k + 1\<close> (the right end
  included for the last segment) is evaluated by that segment: the position is the
  interpolation of the two samples and the derivative their slope, which for finite
  samples \<open>s0\<close>, \<open>s1\<close> are \<open>s0 + (t - t0) / (t1 - t0) * (s1 - s0)\<close> and
  \<open>(s1 - s0) / (t1 - t0)\<close>.
\<close>

theorem fit_resample_two_waypoints:
  "getPiecewisePolynomial FirstOrderHold two_point arm arm_plant = Inr fitted \<and>
   end_time fitted = Finite 2 \<and>
   getRobotTrajectory fitted (Finite 1) arm_plant arm_output =
     Some (None, arm_output\<lparr>waypoints :=
             [(moving 0, Finite 0), (moving 1, Finite 1), (moving 2, Finite 1)]\<rparr>) \<and>
   (\<forall>bs ss tr k t.
      FirstOrderHold (map Finite bs) ss = Inr tr \<and> length ss = length bs \<and> k + 1 < length bs \<and>
      bs ! k \<le> t \<and> (t < bs ! (k + 1) \<or> t = bs ! (k + 1) \<and> k + 2 = length bs) \<longrightarrow>
      bs ! k < bs ! (k + 1) \<and>
      traj_value tr (Finite t) =
        map2 (interpolate (Finite (bs ! k)) (Finite (bs ! (k + 1))) (Finite t)) (ss ! k) (ss ! (k + 1)) \<and>
      EvalDerivative tr (Finite t) =
        map2 (slope (Finite (bs ! k)) (Finite (bs ! (k + 1)))) (ss ! k) (ss ! (k + 1))) \<and>
   (\<forall>t0 t1 t s0 s1.
      t0 < t1 \<longrightarrow>
      interpolate (Finite t0) (Finite t1) (Finite t) (Finite s0) (Finite s1) =
        Finite (s0 + (t - t0) / (t1 - t0) * (s1 - s0)) \<and>
      slope (Finite t0) (Finite t1) (Finite s0) (Finite s1) = Finite ((s1 - s0) / (t1 - t0)))"
proof (intro conjI allI impI)
  show "getPiecewisePolynomial FirstOrderHold two_point arm arm_plant = Inr fitted"
    by (rule two_point_fit)
  show "end_time fitted = Finite 2"
    by (simp add: fitted_def)
  show "getRobotTrajectory fitted (Finite 1) arm_plant arm_output =
     Some (None, arm_output\<lparr>waypoints :=
             [(moving 0, Finite 0), (moving 1, Finite 1), (moving 2, Finite 1)]\<rparr>)"
    by (rule fitted_resample)
next
  fix bs ss tr k and t :: real
  assume a: "FirstOrderHold (map Finite bs) ss = Inr tr \<and> length ss = length bs \<and> k + 1 < length bs \<and>
      bs ! k \<le> t \<and> (t < bs ! (k + 1) \<or> t = bs ! (k + 1) \<and> k + 2 = length bs)"
  then have t: "t < bs ! (k + 1) \<or> k + 2 = length bs" by blast
  from a have "strictly_increasing (map Finite bs)"
    by (auto simp: FirstOrderHold_def split: if_splits)
  then have "sorted_wrt (<) bs" by (rule strictly_increasing_sorted)
  moreover have "k < k + 1" "k + 1 < length bs" using a by simp_all
  ultimately show "bs ! k < bs ! (k + 1)" by (rule sorted_wrt_nth_less)
  from first_order_hold_segment[OF _ _ _ _ t, of ss tr] a
  show "traj_value tr (Finite t) =
        map2 (interpolate (Finite (bs ! k)) (Finite (bs ! (k + 1))) (Finite t)) (ss ! k) (ss ! (k + 1))"
    and "EvalDerivative tr (Finite t) =
        map2 (slope (Finite (bs ! k)) (Finite (bs ! (k + 1)))) (ss ! k) (ss ! (k + 1))"
    by simp_all
next
  fix t0 t1 t s0 s1 :: real
  assume "t0 < t1"
  then have ne: "t0 \<noteq> t1" by simp
  show "interpolate (Finite t0) (Finite t1) (Finite t) (Finite s0) (Finite s1) =
        Finite (s0 + (t - t0) / (t1 - t0) * (s1 - s0))"
    by (rule interpolate_finite[OF ne])
  show "slope (Finite t0) (Finite t1) (Finite s0) (Finite s1) = Finite ((s1 - s0) / (t1 - t0))"
    by (rule slope_finite[OF ne])
qed

theorem fit_resample_two_waypoints_witness:
  "FirstOrderHold (map Finite [0, 2])
     [[Finite 0, Finite 0, Finite 0], [Finite 2, Finite 0, Finite 2]] = Inr fitted \<and>
   ([0, 2] :: real list) ! 0 \<le> 1 \<and> (1 :: real) < [0, 2] ! (0 + 1) \<and>
   traj_value fitted (Finite 1) = [Finite 1, Finite 0, Finite 1] \<and>
   EvalDerivative fitted (Finite 1) = [Finite 1, Finite 0, Finite 1]"
proof -
  let ?bs = "[0, 2] :: real list"
  let ?ss = "[[Finite 0, Finite 0, Finite 0], [Finite 2, Finite 0, Finite 2]]"
  have foh: "FirstOrderHold (map Finite ?bs) ?ss = Inr fitted"
    by (simp add: FirstOrderHold_def fitted_def)
  have pre: "FirstOrderHold (map Finite ?bs) ?ss = Inr fitted \<and> length ?ss = length ?bs \<and>
      0 + 1 < length ?bs \<and> ?bs ! 0 \<le> 1 \<and>
      (1 < ?bs ! (0 + 1) \<or> 1 = ?bs ! (0 + 1) \<and> 0 + 2 = length ?bs)"
    using foh by simp
  from fit_resample_two_waypoints have
    "FirstOrderHold (map Finite ?bs) ?ss = Inr fitted \<and> length ?ss = length ?bs \<and>
      0 + 1 < length ?bs \<and> ?bs ! 0 \<le> 1 \<and>
      (1 < ?bs ! (0 + 1) \<or> 1 = ?bs ! (0 + 1) \<and> 0 + 2 = length ?bs) \<longrightarrow>
      ?bs ! 0 < ?bs ! (0 + 1) \<and>
      traj_value fitted (Finite 1) =
        map2 (interpolate (Finite (?bs ! 0)) (Finite (?bs ! (0 + 1))) (Finite 1)) (?ss ! 0) (?ss ! (0 + 1)) \<and>
      EvalDerivative fitted (Finite 1) =
        map2 (slope (Finite (?bs ! 0)) (Finite (?bs ! (0 + 1)))) (?ss ! 0) (?ss ! (0 + 1))"
    by blast
  with pre have
    "traj_value fitted (Finite 1) =
        map2 (interpolate (Finite (?bs ! 0)) (Finite (?bs ! (0 + 1))) (Finite 1)) (?ss ! 0) (?ss ! (0 + 1))"
    "EvalDerivative fitted (Finite 1) =
        map2 (slope (Finite (?bs ! 0)) (Finite (?bs ! (0 + 1)))) (?ss ! 0) (?ss ! (0 + 1))"
    by blast+
  then have "traj_value fitted (Finite 1) = [Finite 1, Finite 0, Finite 1]"
    "EvalDerivative fitted (Finite 1) = [Finite 1, Finite 0, Finite 1]"
    by (simp_all add: interpolate_def slope_def exact_sub_def)
  then show ?thesis using foh by simp
qed

section \<open>Replacing extensions\<close>

lemma string_find_None:
  assumes "string_find s needle pos = None" "pos \<le> q" "needle \<noteq> []"
  shows "take (length needle) (drop q s) \<noteq> needle"
proof
  assume occ: "take (length needle) (drop q s) = needle"
  define hi where "hi = Suc (length s - length needle)"
  from occ have "length (take (length needle) (drop q s)) = length needle" by simp
  then have "min (length s - q) (length needle) = length needle" by simp
  then have fit: "q + length needle \<le> length s" using assms(3) by (cases needle) auto
  then have "\<not> length s < length needle" by simp
  with assms(1) have "List.find (\<lambda>p. take (length needle) (drop p s) = needle) [pos ..< hi] = None"
    by (simp add: string_find_def hi_def)
  then have "\<forall>x\<in>set [pos ..< hi]. take (length needle) (drop x s) \<noteq> needle"
    unfolding find_None_iff by blast
  moreover have "q < hi" using fit by (simp add: hi_def)
  then have "q \<in> set [pos ..< hi]"
    using assms(2) by simp
  ultimately show False using occ by blast
qed

lemma subst_skip:
  assumes "\<forall>q<k. take (length needle) (drop q xs) \<noteq> needle" "k \<le> length xs"
  shows "subst_all needle xs = take k xs @ subst_all needle (drop k xs)"
  using assms
proof (induction k arbitrary: xs)
  case 0
  then show ?case by simp
next
  case (Suc k)
  then obtain c cs where xs: "xs = c # cs" by (cases xs) auto
  have head: "take (length needle) (c # cs) \<noteq> needle"
    using Suc.prems(1) xs by (metis drop0 zero_less_Suc)
  have "\<forall>q<k. take (length needle) (drop q cs) \<noteq> needle"
  proof (intro allI impI)
    fix q assume "q < k"
    then have "Suc q < Suc k" by simp
    with Suc.prems(1) have "take (length needle) (drop (Suc q) xs) \<noteq> needle" by blast
    then show "take (length needle) (drop q cs) \<noteq> needle" using xs by simp
  qed
  moreover have "k \<le> length cs" using Suc.prems(2) xs by simp
  ultimately have "subst_all needle cs = take k cs @ subst_all needle (drop k cs)"
    by (rule Suc.IH)
  then show ?case using head xs by simp
qed

lemma subst_none:
  assumes "\<forall>q. take (length needle) (drop q xs) \<noteq> needle"
  shows "subst_all needle xs = xs"
  using subst_skip[of "length xs" needle xs] assms by simp

lemma subst_occurrence:
  assumes "take (length needle) xs = needle" "needle \<noteq> []"
  shows "subst_all needle xs = ''.obj'' @ subst_all needle (drop (length needle) xs)"
proof -
  from assms obtain c cs where xs: "xs = c # cs" by (cases xs) auto
  obtain n where n: "length needle = Suc n" using assms(2) by (cases needle) auto
  show ?thesis using assms(1) xs n by simp
qed

lemma replace_lower_subst:
  "replace_lower result pos = take pos result @ subst_all ''.stl'' (drop pos result)"
proof (induction result pos rule: replace_lower.induct)
  case (1 result pos)
  show ?case
  proof (cases "string_find result ''.stl'' pos")
    case None
    have "\<forall>q. take (length ''.stl'') (drop q (drop pos result)) \<noteq> ''.stl''"
    proof
      fix q
      have "take (length ''.stl'') (drop (pos + q) result) \<noteq> ''.stl''"
        by (rule string_find_None[OF None]) simp_all
      then show "take (length ''.stl'') (drop q (drop pos result)) \<noteq> ''.stl''"
        by (simp add: add.commute)
    qed
    then have "subst_all ''.stl'' (drop pos result) = drop pos result"
      by (rule subst_none)
    then show ?thesis using None by (simp add: replace_lower.simps[of result pos])
  next
    case (Some p)
    from string_find_Some[OF Some] have
      le: "pos \<le> p" and fit: "p + 4 \<le> length result"
      and occ: "take (length ''.stl'') (drop p result) = ''.stl''"
      and before: "\<forall>q. pos \<le> q \<and> q < p \<longrightarrow> take (length ''.stl'') (drop q result) \<noteq> ''.stl''"
      by simp_all
    let ?r = "string_replace result p (length ''.stl'') ''.obj''"
    have tk: "take (p + 4) ?r = take p result @ ''.obj''"
      using fit by (simp add: string_replace_def)
    have dr: "drop (p + 4) ?r = drop (p + 4) result"
      using fit by (simp add: string_replace_def eval_nat_numeral)
    have pl: "p + length ''.obj'' = p + 4" by simp
    have "replace_lower result pos = replace_lower ?r (p + length ''.obj'')"
      by (subst replace_lower.simps) (simp only: Some option.case)
    also have "\<dots> = take (p + length ''.obj'') ?r @ subst_all ''.stl'' (drop (p + length ''.obj'') ?r)"
      by (rule "1.IH"[OF Some])
    also have "\<dots> = take p result @ ''.obj'' @ subst_all ''.stl'' (drop (p + 4) result)"
      unfolding pl tk dr by simp
    finally have lhs: "replace_lower result pos =
        take p result @ ''.obj'' @ subst_all ''.stl'' (drop (p + 4) result)" .
    have "\<forall>q<p - pos. take (length ''.stl'') (drop q (drop pos result)) \<noteq> ''.stl''"
    proof (intro allI impI)
      fix q assume "q < p - pos"
      then have "pos \<le> pos + q \<and> pos + q < p" by simp
      with before have "take (length ''.stl'') (drop (pos + q) result) \<noteq> ''.stl''" by blast
      then show "take (length ''.stl'') (drop q (drop pos result)) \<noteq> ''.stl''"
        by (simp add: add.commute)
    qed
    moreover have "p - pos \<le> length (drop pos result)" using fit by simp
    ultimately have "subst_all ''.stl'' (drop pos result) =
        take (p - pos) (drop pos result) @ subst_all ''.stl'' (drop (p - pos) (drop pos result))"
      by (rule subst_skip)
    moreover have "drop (p - pos) (drop pos result) = drop p result" using le by simp
    ultimately have a: "subst_all ''.stl'' (drop pos result) =
        take (p - pos) (drop pos result) @ subst_all ''.stl'' (drop p result)"
      by simp
    have "subst_all ''.stl'' (drop p result) =
        ''.obj'' @ subst_all ''.stl'' (drop (length ''.stl'') (drop p result))"
      by (rule subst_occurrence[OF occ]) simp
    moreover have "drop (length ''.stl'') (drop p result) = drop (p + 4) result"
      by (simp add: eval_nat_numeral)
    ultimately have b: "subst_all ''.stl'' (drop p result) =
        ''.obj'' @ subst_all ''.stl'' (drop (p + 4) result)"
      by (simp only:)
    have c: "take pos result @ take (p - pos) (drop pos result) = take p result"
      using le by (metis le_add_diff_inverse take_add)
    have "take pos result @ subst_all ''.stl'' (drop pos result) =
        (take pos result @ take (p - pos) (drop pos result)) @ ''.obj'' @
          subst_all ''.stl'' (drop (p + 4) result)"
      by (simp only: a b append_assoc)
    then have "take pos result @ subst_all ''.stl'' (drop pos result) =
        take p result @ ''.obj'' @ subst_all ''.stl'' (drop (p + 4) result)"
      unfolding c .
    with lhs show ?thesis by simp
  qed
qed

lemma replace_upper_subst:
  "replace_upper result pos = take pos result @ subst_all ''.STL'' (drop pos result)"
proof (induction result pos rule: replace_upper.induct)
  case (1 result pos)
  show ?case
  proof (cases "string_find result ''.STL'' pos")
    case None
    have "\<forall>q. take (length ''.STL'') (drop q (drop pos result)) \<noteq> ''.STL''"
    proof
      fix q
      have "take (length ''.STL'') (drop (pos + q) result) \<noteq> ''.STL''"
        by (rule string_find_None[OF None]) simp_all
      then show "take (length ''.STL'') (drop q (drop pos result)) \<noteq> ''.STL''"
        by (simp add: add.commute)
    qed
    then have "subst_all ''.STL'' (drop pos result) = drop pos result"
      by (rule subst_none)
    then show ?thesis using None by (simp add: replace_upper.simps[of result pos])
  next
    case (Some p)
    from string_find_Some[OF Some] have
      le: "pos \<le> p" and fit: "p + 4 \<le> length result"
      and occ: "take (length ''.STL'') (drop p result) = ''.STL''"
      and before: "\<forall>q. pos \<le> q \<and> q < p \<longrightarrow> take (length ''.STL'') (drop q result) \<noteq> ''.STL''"
      by simp_all
    let ?r = "string_replace result p (length ''.STL'') ''.obj''"
    have tk: "take (p + 4) ?r = take p result @ ''.obj''"
      using fit by (simp add: string_replace_def)
    have dr: "drop (p + 4) ?r = drop (p + 4) result"
      using fit by (simp add: string_replace_def eval_nat_numeral)
    have pl: "p + length ''.obj'' = p + 4" by simp
    have "replace_upper result pos = replace_upper ?r (p + length ''.obj'')"
      by (subst replace_upper.simps) (simp only: Some option.case)
    also have "\<dots> = take (p + length ''.obj'') ?r @ subst_all ''.STL'' (drop (p + length ''.obj'') ?r)"
      by (rule "1.IH"[OF Some])
    also have "\<dots> = take p result @ ''.obj'' @ subst_all ''.STL'' (drop (p + 4) result)"
      unfolding pl tk dr by simp
    finally have lhs: "replace_upper result pos =
        take p result @ ''.obj'' @ subst_all ''.STL'' (drop (p + 4) result)" .
    have "\<forall>q<p - pos. take (length ''.STL'') (drop q (drop pos result)) \<noteq> ''.STL''"
    proof (intro allI impI)
      fix q assume "q < p - pos"
      then have "pos \<le> pos + q \<and> pos + q < p" by simp
      with before have "take (length ''.STL'') (drop (pos + q) result) \<noteq> ''.STL''" by blast
      then show "take (length ''.STL'') (drop q (drop pos result)) \<noteq> ''.STL''"
        by (simp add: add.commute)
    qed
    moreover have "p - pos \<le> length (drop pos result)" using fit by simp
    ultimately have "subst_all ''.STL'' (drop pos result) =
        take (p - pos) (drop pos result) @ subst_all ''.STL'' (drop (p - pos) (drop pos result))"
      by (rule subst_skip)
    moreover have "drop (p - pos) (drop pos result) = drop p result" using le by simp
    ultimately have a: "subst_all ''.STL'' (drop pos result) =
        take (p - pos) (drop pos result) @ subst_all ''.STL'' (drop p result)"
      by simp
    have "subst_all ''.STL'' (drop p result) =
        ''.obj'' @ subst_all ''.STL'' (drop (length ''.STL'') (drop p result))"
      by (rule subst_occurrence[OF occ]) simp
    moreover have "drop (length ''.STL'') (drop p result) = drop (p + 4) result"
      by (simp add: eval_nat_numeral)
    ultimately have b: "subst_all ''.STL'' (drop p result) =
        ''.obj'' @ subst_all ''.STL'' (drop (p + 4) result)"
      by (simp only:)
    have c: "take pos result @ take (p - pos) (drop pos result) = take p result"
      using le by (metis le_add_diff_inverse take_add)
    have "take pos result @ subst_all ''.STL'' (drop pos result) =
        (take pos result @ take (p - pos) (drop pos result)) @ ''.obj'' @
          subst_all ''.STL'' (drop (p + 4) result)"
      by (simp only: a b append_assoc)
    then have "take pos result @ subst_all ''.STL'' (drop pos result) =
        take p result @ ''.obj'' @ subst_all ''.STL'' (drop (p + 4) result)"
      unfolding c .
    with lhs show ?thesis by simp
  qed
qed

lemma replaceSTLWithOBJ_subst:
  "replaceSTLWithOBJ input = subst_all ''.STL'' (subst_all ''.stl'' input)"
  by (simp add: replaceSTLWithOBJ_def replace_lower_subst replace_upper_subst)

lemma subst_all_head:
  assumes "subst_all needle xs = y # ys" "y \<notin> set ''.obj''"
  shows "\<exists>cs. xs = y # cs \<and> ys = subst_all needle cs"
proof (cases xs)
  case Nil
  then show ?thesis using assms by simp
next
  case (Cons c cs)
  then show ?thesis using assms by (auto split: if_splits)
qed

lemma subst_all_prefix:
  assumes "set w \<inter> set ''.obj'' = {}" "take (length w) (subst_all needle xs) = w"
  shows "take (length w) xs = w"
  using assms
proof (induction w arbitrary: xs)
  case Nil
  then show ?case by simp
next
  case (Cons y w)
  from Cons.prems(2) obtain ys where r: "subst_all needle xs = y # ys" and w: "take (length w) ys = w"
    by (cases "subst_all needle xs") auto
  have "y \<notin> set ''.obj''" using Cons.prems(1) by auto
  from subst_all_head[OF r this] obtain cs where xs: "xs = y # cs" and ys: "ys = subst_all needle cs"
    by blast
  have "set w \<inter> set ''.obj'' = {}" using Cons.prems(1) by auto
  from Cons.IH[OF this] w ys have "take (length w) cs = w" by simp
  then show ?case using xs by simp
qed

lemma replace_extensions_head:
  assumes "replace_extensions xs = y # ys" "y \<notin> set ''.obj''"
  shows "\<exists>cs. xs = y # cs \<and> ys = replace_extensions cs"
proof (cases xs)
  case Nil
  then show ?thesis using assms by simp
next
  case (Cons c cs)
  then show ?thesis using assms by (auto split: if_splits)
qed

lemma replace_extensions_prefix:
  assumes "set w \<inter> set ''.obj'' = {}" "take (length w) (replace_extensions xs) = w"
  shows "take (length w) xs = w"
  using assms
proof (induction w arbitrary: xs)
  case Nil
  then show ?case by simp
next
  case (Cons y w)
  from Cons.prems(2) obtain ys where r: "replace_extensions xs = y # ys" and w: "take (length w) ys = w"
    by (cases "replace_extensions xs") auto
  have "y \<notin> set ''.obj''" using Cons.prems(1) by auto
  from replace_extensions_head[OF r this] obtain cs where xs: "xs = y # cs" and ys: "ys = replace_extensions cs"
    by blast
  have "set w \<inter> set ''.obj'' = {}" using Cons.prems(1) by auto
  from Cons.IH[OF this] w ys have "take (length w) cs = w" by simp
  then show ?case using xs by simp
qed

lemma subst_upper_after_obj:
  "subst_all ''.STL'' (''.obj'' @ xs) = ''.obj'' @ subst_all ''.STL'' xs"
  by simp

lemma subst_lower_upper_literal:
  "subst_all ''.stl'' (''.STL'' @ xs) = ''.STL'' @ subst_all ''.stl'' xs"
  by simp

lemma subst_all_no_head:
  "take (length needle) (c # cs) \<noteq> needle \<Longrightarrow> subst_all needle (c # cs) = c # subst_all needle cs"
  by simp

lemma length_extension:
  "length ''.stl'' = 4" "length ''.STL'' = 4" "length ''STL'' = 3" "length ''stl'' = 3"
  by simp_all

lemma take4_shape:
  assumes "take 4 (c # cs) = w" "length w = 4"
  shows "c # cs = w @ drop 3 cs \<and> 3 \<le> length cs"
proof -
  have "c # cs = take 4 (c # cs) @ drop 4 (c # cs)" by simp
  moreover have "drop 4 (c # cs) = drop 3 cs" by (simp add: eval_nat_numeral)
  moreover have "length (take 4 (c # cs)) = 4" using assms by simp
  then have "3 \<le> length cs" by simp
  ultimately show ?thesis using assms(1)[symmetric] by simp
qed

lemma two_passes:
  "subst_all ''.STL'' (subst_all ''.stl'' s) = replace_extensions s"
proof (induction s rule: replace_extensions.induct)
  case 1
  show ?case by simp
next
  case (2 c cs)
  show ?case
  proof (cases "take 4 (c # cs) = ''.stl''")
    case True
    have spec: "replace_extensions (c # cs) = ''.obj'' @ replace_extensions (drop 3 cs)"
      using True by simp
    have "take (length ''.stl'') (c # cs) = ''.stl''"
      unfolding length_extension by (rule True)
    from subst_occurrence[OF this] have
      "subst_all ''.stl'' (c # cs) = ''.obj'' @ subst_all ''.stl'' (drop 4 (c # cs))"
      by (simp only: length_extension) simp
    moreover have "drop 4 (c # cs) = drop 3 cs" by (simp add: eval_nat_numeral)
    ultimately have "subst_all ''.STL'' (subst_all ''.stl'' (c # cs)) =
        ''.obj'' @ subst_all ''.STL'' (subst_all ''.stl'' (drop 3 cs))"
      by (simp only: subst_upper_after_obj)
    then show ?thesis unfolding spec "2.IH"(1)[OF True] .
  next
    case False
    show ?thesis
    proof (cases "take 4 (c # cs) = ''.STL''")
      case True
      have spec: "replace_extensions (c # cs) = ''.obj'' @ replace_extensions (drop 3 cs)"
        using False True by simp
      from take4_shape[OF True] have shape: "c # cs = ''.STL'' @ drop 3 cs" by simp
      have "subst_all ''.STL'' (subst_all ''.stl'' (''.STL'' @ drop 3 cs)) =
          subst_all ''.STL'' (''.STL'' @ subst_all ''.stl'' (drop 3 cs))"
        by (simp only: subst_lower_upper_literal)
      also have "\<dots> = ''.obj'' @ subst_all ''.STL'' (subst_all ''.stl'' (drop 3 cs))"
        by simp
      finally show ?thesis unfolding spec "2.IH"(2)[OF False True] shape[symmetric] .
    next
      case neither: False
      have spec: "replace_extensions (c # cs) = c # replace_extensions cs"
        using False neither by auto
      have "take (length ''.stl'') (c # cs) \<noteq> ''.stl''"
        unfolding length_extension by (rule False)
      then have lower: "subst_all ''.stl'' (c # cs) = c # subst_all ''.stl'' cs"
        by (rule subst_all_no_head)
      have "take 4 (c # subst_all ''.stl'' cs) \<noteq> ''.STL''"
      proof
        assume a: "take 4 (c # subst_all ''.stl'' cs) = ''.STL''"
        then have c: "c = CHR ''.''" by simp
        from a have "take 3 (subst_all ''.stl'' cs) = ''STL''" by simp
        then have t: "take (length ''STL'') (subst_all ''.stl'' cs) = ''STL''"
          unfolding length_extension .
        have "take (length ''STL'') cs = ''STL''"
          by (rule subst_all_prefix[OF _ t]) simp
        then have "take 3 cs = ''STL''" unfolding length_extension .
        then have "take 4 (c # cs) = ''.STL''" using c by simp
        then show False using neither by simp
      qed
      then have "take (length ''.STL'') (c # subst_all ''.stl'' cs) \<noteq> ''.STL''"
        unfolding length_extension .
      then have "subst_all ''.STL'' (c # subst_all ''.stl'' cs) =
          c # subst_all ''.STL'' (subst_all ''.stl'' cs)"
        by (rule subst_all_no_head)
      then show ?thesis unfolding spec lower "2.IH"(3)[OF False neither] .
    qed
  qed
qed

lemma length_replace_extensions: "length (replace_extensions s) = length s"
proof (induction s rule: replace_extensions.induct)
  case 1
  show ?case by simp
next
  case (2 c cs)
  show ?case
  proof (cases "take 4 (c # cs) = ''.stl''")
    case True
    have spec: "replace_extensions (c # cs) = ''.obj'' @ replace_extensions (drop 3 cs)"
      using True by simp
    from take4_shape[OF True] have "3 \<le> length cs" by simp
    then show ?thesis unfolding spec using "2.IH"(1)[OF True] by simp
  next
    case False
    show ?thesis
    proof (cases "take 4 (c # cs) = ''.STL''")
      case True
      have spec: "replace_extensions (c # cs) = ''.obj'' @ replace_extensions (drop 3 cs)"
        using False True by simp
      from take4_shape[OF True] have "3 \<le> length cs" by simp
      then show ?thesis unfolding spec using "2.IH"(2)[OF False True] by simp
    next
      case neither: False
      have spec: "replace_extensions (c # cs) = c # replace_extensions cs"
        using False neither by auto
      show ?thesis unfolding spec using "2.IH"(3)[OF False neither] by simp
    qed
  qed
qed

lemma replace_extensions_clean:
  "take 4 (drop q (replace_extensions s)) \<noteq> ''.stl'' \<and>
   take 4 (drop q (replace_extensions s)) \<noteq> ''.STL''"
proof (induction s arbitrary: q rule: replace_extensions.induct)
  case 1
  show ?case by simp
next
  case (2 c cs)
  have replaced: "take 4 (drop q (''.obj'' @ r)) \<noteq> ''.stl'' \<and> take 4 (drop q (''.obj'' @ r)) \<noteq> ''.STL''"
    if ih: "\<And>q. take 4 (drop q r) \<noteq> ''.stl'' \<and> take 4 (drop q r) \<noteq> ''.STL''" for r
  proof -
    consider "q = 0" | "q = 1" | "q = 2" | "q = 3" | "4 \<le> q" by arith
    then show ?thesis
    proof cases
      case 5
      then obtain q' where q: "q = 4 + q'" using le_Suc_ex by blast
      have "drop q (''.obj'' @ r) = drop q' r" unfolding q by (simp add: eval_nat_numeral)
      then show ?thesis using ih[of q'] by simp
    qed (simp_all add: eval_nat_numeral)
  qed
  show ?case
  proof (cases "take 4 (c # cs) = ''.stl''")
    case True
    have spec: "replace_extensions (c # cs) = ''.obj'' @ replace_extensions (drop 3 cs)"
      using True by simp
    show ?thesis unfolding spec by (rule replaced) (rule "2.IH"(1)[OF True])
  next
    case False
    show ?thesis
    proof (cases "take 4 (c # cs) = ''.STL''")
      case True
      have spec: "replace_extensions (c # cs) = ''.obj'' @ replace_extensions (drop 3 cs)"
        using False True by simp
      show ?thesis unfolding spec by (rule replaced) (rule "2.IH"(2)[OF False True])
    next
      case neither: False
      have spec: "replace_extensions (c # cs) = c # replace_extensions cs"
        using False neither by auto
      show ?thesis
      proof (cases q)
        case 0
        have "take 4 (c # replace_extensions cs) \<noteq> ''.stl''"
        proof
          assume a: "take 4 (c # replace_extensions cs) = ''.stl''"
          then have c: "c = CHR ''.''" by simp
          from a have "take 3 (replace_extensions cs) = ''stl''" by simp
          then have t: "take (length ''stl'') (replace_extensions cs) = ''stl''"
            unfolding length_extension .
          have "take (length ''stl'') cs = ''stl''"
            by (rule replace_extensions_prefix[OF _ t]) simp
          then have "take 3 cs = ''stl''" unfolding length_extension .
          then have "take 4 (c # cs) = ''.stl''" using c by simp
          then show False using False by simp
        qed
        moreover have "take 4 (c # replace_extensions cs) \<noteq> ''.STL''"
        proof
          assume a: "take 4 (c # replace_extensions cs) = ''.STL''"
          then have c: "c = CHR ''.''" by simp
          from a have "take 3 (replace_extensions cs) = ''STL''" by simp
          then have t: "take (length ''STL'') (replace_extensions cs) = ''STL''"
            unfolding length_extension .
          have "take (length ''STL'') cs = ''STL''"
            by (rule replace_extensions_prefix[OF _ t]) simp
          then have "take 3 cs = ''STL''" unfolding length_extension .
          then have "take 4 (c # cs) = ''.STL''" using c by simp
          then show False using neither by simp
        qed
        ultimately show ?thesis unfolding spec 0 by simp
      next
        case (Suc q')
        show ?thesis unfolding spec Suc using "2.IH"(3)[OF False neither, of q'] by simp
      qed
    qed
  qed
qed

lemma replace_extensions_unchanged:
  assumes "\<forall>q. take 4 (drop q s) \<noteq> ''.stl'' \<and> take 4 (drop q s) \<noteq> ''.STL''"
  shows "replace_extensions s = s"
  using assms
proof (induction s)
  case Nil
  show ?case by simp
next
  case (Cons c cs)
  from Cons.prems[rule_format, of 0] have
    head: "take 4 (c # cs) \<noteq> ''.stl''" "take 4 (c # cs) \<noteq> ''.STL''"
    by simp_all
  have "\<forall>q. take 4 (drop q cs) \<noteq> ''.stl'' \<and> take 4 (drop q cs) \<noteq> ''.STL''"
  proof
    fix q
    from Cons.prems[rule_format, of "Suc q"]
    show "take 4 (drop q cs) \<noteq> ''.stl'' \<and> take 4 (drop q cs) \<noteq> ''.STL''" by simp
  qed
  then have "replace_extensions cs = cs" by (rule Cons.IH)
  moreover have "replace_extensions (c # cs) = c # replace_extensions cs"
    using head by auto
  ultimately show ?case by simp
qed

lemma string_find_absent:
  assumes "\<forall>q. take (length needle) (drop q s) \<noteq> needle"
  shows "string_find s needle pos = None"
proof (cases "string_find s needle pos")
  case None
  then show ?thesis .
next
  case (Some p)
  from string_find_Some[OF Some] assms show ?thesis by blast
qed

lemma replace_extensions_occurrence:
  "take 4 (drop q s) = ''.stl'' \<or> take 4 (drop q s) = ''.STL'' \<Longrightarrow>
   take 4 (drop q (replace_extensions s)) = ''.obj''"
proof (induction s arbitrary: q rule: replace_extensions.induct)
  case 1
  then show ?case by simp
next
  case (2 c cs)
  have replaced: "take 4 (drop q (''.obj'' @ replace_extensions (drop 3 cs))) = ''.obj''"
    if shape: "c # cs = w @ drop 3 cs" and w: "w = ''.stl'' \<or> w = ''.STL''"
      and ih: "\<And>q. take 4 (drop q (drop 3 cs)) = ''.stl'' \<or> take 4 (drop q (drop 3 cs)) = ''.STL'' \<Longrightarrow>
                 take 4 (drop q (replace_extensions (drop 3 cs))) = ''.obj''"
    for w
  proof -
    have occ: "take 4 (drop q (w @ drop 3 cs)) = ''.stl'' \<or> take 4 (drop q (w @ drop 3 cs)) = ''.STL''"
      using "2.prems" unfolding shape .
    consider "q = 0" | "q = 1" | "q = 2" | "q = 3" | "4 \<le> q" by arith
    then show ?thesis
    proof cases
      case 1
      then show ?thesis by simp
    next
      case 2
      then show ?thesis using occ w by (auto simp: eval_nat_numeral)
    next
      case 3
      then show ?thesis using occ w by (auto simp: eval_nat_numeral)
    next
      case 4
      then show ?thesis using occ w by (auto simp: eval_nat_numeral)
    next
      case 5
      then obtain q' where q: "q = 4 + q'" using le_Suc_ex by blast
      have A: "drop q (w @ drop 3 cs) = drop q' (drop 3 cs)"
        unfolding q using w by (auto simp: eval_nat_numeral)
      from occ have "take 4 (drop q' (drop 3 cs)) = ''.stl'' \<or> take 4 (drop q' (drop 3 cs)) = ''.STL''"
        unfolding A .
      from ih[OF this] have "take 4 (drop q' (replace_extensions (drop 3 cs))) = ''.obj''" .
      moreover have "drop q (''.obj'' @ replace_extensions (drop 3 cs)) =
                     drop q' (replace_extensions (drop 3 cs))"
        unfolding q by (simp add: eval_nat_numeral)
      ultimately show ?thesis by simp
    qed
  qed
  show ?case
  proof (cases "take 4 (c # cs) = ''.stl''")
    case True
    have spec: "replace_extensions (c # cs) = ''.obj'' @ replace_extensions (drop 3 cs)"
      using True by simp
    from take4_shape[OF True] have shape: "c # cs = ''.stl'' @ drop 3 cs" by simp
    show ?thesis unfolding spec
      by (rule replaced[OF shape]) (simp, rule "2.IH"(1)[OF True])
  next
    case False
    show ?thesis
    proof (cases "take 4 (c # cs) = ''.STL''")
      case True
      have spec: "replace_extensions (c # cs) = ''.obj'' @ replace_extensions (drop 3 cs)"
        using False True by simp
      from take4_shape[OF True] have shape: "c # cs = ''.STL'' @ drop 3 cs" by simp
      show ?thesis unfolding spec
        by (rule replaced[OF shape]) (simp, rule "2.IH"(2)[OF False True])
    next
      case neither: False
      have spec: "replace_extensions (c # cs) = c # replace_extensions cs"
        using False neither by auto
      show ?thesis
      proof (cases q)
        case 0
        then show ?thesis using "2.prems" False neither by auto
      next
        case (Suc q')
        then have "take 4 (drop q' cs) = ''.stl'' \<or> take 4 (drop q' cs) = ''.STL''"
          using "2.prems" by simp
        from "2.IH"(3)[OF False neither this] show ?thesis unfolding spec Suc by simp
      qed
    qed
  qed
qed

lemma replace_extensions_other:
  "i < length s \<Longrightarrow>
   \<forall>q. q \<le> i \<and> i < q + 4 \<longrightarrow> take 4 (drop q s) \<noteq> ''.stl'' \<and> take 4 (drop q s) \<noteq> ''.STL'' \<Longrightarrow>
   replace_extensions s ! i = s ! i"
proof (induction s arbitrary: i rule: replace_extensions.induct)
  case 1
  then show ?case by simp
next
  case (2 c cs)
  have replaced: "(''.obj'' @ replace_extensions (drop 3 cs)) ! i = (c # cs) ! i"
    if occ: "take 4 (c # cs) = ''.stl'' \<or> take 4 (c # cs) = ''.STL''"
      and len: "3 \<le> length cs"
      and ih: "\<And>i. i < length (drop 3 cs) \<Longrightarrow>
                 \<forall>q. q \<le> i \<and> i < q + 4 \<longrightarrow>
                     take 4 (drop q (drop 3 cs)) \<noteq> ''.stl'' \<and> take 4 (drop q (drop 3 cs)) \<noteq> ''.STL'' \<Longrightarrow>
                 replace_extensions (drop 3 cs) ! i = drop 3 cs ! i"
  proof -
    have "\<not> i < 4"
    proof
      assume "i < 4"
      then have "0 \<le> i \<and> i < 0 + 4" by simp
      with "2.prems"(2) have "take 4 (drop 0 (c # cs)) \<noteq> ''.stl'' \<and> take 4 (drop 0 (c # cs)) \<noteq> ''.STL''"
        by blast
      then show False using occ by auto
    qed
    then obtain i' where i: "i = 4 + i'" using le_Suc_ex not_less by blast
    have i': "i' < length (drop 3 cs)" using "2.prems"(1) i by simp
    have "\<forall>q. q \<le> i' \<and> i' < q + 4 \<longrightarrow>
            take 4 (drop q (drop 3 cs)) \<noteq> ''.stl'' \<and> take 4 (drop q (drop 3 cs)) \<noteq> ''.STL''"
    proof (intro allI impI)
      fix q assume "q \<le> i' \<and> i' < q + 4"
      then have "4 + q \<le> i \<and> i < (4 + q) + 4" using i by simp
      with "2.prems"(2) have "take 4 (drop (4 + q) (c # cs)) \<noteq> ''.stl'' \<and>
                             take 4 (drop (4 + q) (c # cs)) \<noteq> ''.STL''"
        by blast
      moreover have "drop (4 + q) (c # cs) = drop q (drop 3 cs)"
        by (simp add: eval_nat_numeral add.commute)
      ultimately show "take 4 (drop q (drop 3 cs)) \<noteq> ''.stl'' \<and> take 4 (drop q (drop 3 cs)) \<noteq> ''.STL''"
        by simp
    qed
    from ih[OF i' this] have "replace_extensions (drop 3 cs) ! i' = drop 3 cs ! i'" .
    moreover have "(''.obj'' @ replace_extensions (drop 3 cs)) ! i = replace_extensions (drop 3 cs) ! i'"
      unfolding i by (simp add: eval_nat_numeral)
    moreover have "(c # cs) ! i = drop 3 cs ! i'"
      unfolding i using len by (simp add: eval_nat_numeral)
    ultimately show ?thesis by simp
  qed
  show ?case
  proof (cases "take 4 (c # cs) = ''.stl''")
    case True
    have spec: "replace_extensions (c # cs) = ''.obj'' @ replace_extensions (drop 3 cs)"
      using True by simp
    from take4_shape[OF True] have len: "3 \<le> length cs" by simp
    have occ: "take 4 (c # cs) = ''.stl'' \<or> take 4 (c # cs) = ''.STL''"
      using True by (rule disjI1)
    show ?thesis unfolding spec
      by (rule replaced[OF occ len]) (rule "2.IH"(1)[OF True])
  next
    case False
    show ?thesis
    proof (cases "take 4 (c # cs) = ''.STL''")
      case True
      have spec: "replace_extensions (c # cs) = ''.obj'' @ replace_extensions (drop 3 cs)"
        using False True by simp
      from take4_shape[OF True] have len: "3 \<le> length cs" by simp
      have occ: "take 4 (c # cs) = ''.stl'' \<or> take 4 (c # cs) = ''.STL''"
        using True by (rule disjI2)
      show ?thesis unfolding spec
        by (rule replaced[OF occ len]) (rule "2.IH"(2)[OF False True])
    next
      case neither: False
      have spec: "replace_extensions (c # cs) = c # replace_extensions cs"
        using False neither by auto
      show ?thesis
      proof (cases i)
        case 0
        then show ?thesis unfolding spec by simp
      next
        case (Suc i')
        have i': "i' < length cs" using "2.prems"(1) Suc by simp
        have "\<forall>q. q \<le> i' \<and> i' < q + 4 \<longrightarrow>
                take 4 (drop q cs) \<noteq> ''.stl'' \<and> take 4 (drop q cs) \<noteq> ''.STL''"
        proof (intro allI impI)
          fix q assume "q \<le> i' \<and> i' < q + 4"
          then have "Suc q \<le> i \<and> i < Suc q + 4" using Suc by simp
          with "2.prems"(2) have "take 4 (drop (Suc q) (c # cs)) \<noteq> ''.stl'' \<and>
                                 take 4 (drop (Suc q) (c # cs)) \<noteq> ''.STL''"
            by blast
          then show "take 4 (drop q cs) \<noteq> ''.stl'' \<and> take 4 (drop q cs) \<noteq> ''.STL''" by simp
        qed
        from "2.IH"(3)[OF False neither i' this] show ?thesis unfolding spec Suc by simp
      qed
    qed
  qed
qed

text \<open>
  Claim C10. For every input, \<^verbatim>\<open>replaceSTLWithOBJ\<close> returns the one-pass replacement
  of every \<^verbatim>\<open>.stl\<close> and \<^verbatim>\<open>.STL\<close> by \<^verbatim>\<open>.obj\<close>: the result is as long as the
  input, holds \<^verbatim>\<open>.obj\<close> wherever the input holds one of the two extensions, agrees
  with the input at every index that no such occurrence covers, and holds neither
  extension anywhere. An input without the two extensions, such as one with the
  mixed-case \<^verbatim>\<open>.Stl\<close>, is returned as it is, and applying the function twice gives
  what applying it once gives.
\<close>

theorem replaceSTLWithOBJ_replaces_extensions:
  "replaceSTLWithOBJ s = replace_extensions s \<and>
   length (replaceSTLWithOBJ s) = length s \<and>
   (\<forall>q. take 4 (drop q (replaceSTLWithOBJ s)) \<noteq> ''.stl'' \<and>
        take 4 (drop q (replaceSTLWithOBJ s)) \<noteq> ''.STL'') \<and>
   string_find (replaceSTLWithOBJ s) ''.stl'' pos = None \<and>
   string_find (replaceSTLWithOBJ s) ''.STL'' pos = None \<and>
   (\<forall>q. take 4 (drop q s) = ''.stl'' \<or> take 4 (drop q s) = ''.STL'' \<longrightarrow>
        take 4 (drop q (replaceSTLWithOBJ s)) = ''.obj'') \<and>
   (\<forall>i<length s.
      (\<forall>q. q \<le> i \<and> i < q + 4 \<longrightarrow> take 4 (drop q s) \<noteq> ''.stl'' \<and> take 4 (drop q s) \<noteq> ''.STL'') \<longrightarrow>
      replaceSTLWithOBJ s ! i = s ! i) \<and>
   (string_find s ''.stl'' 0 = None \<and> string_find s ''.STL'' 0 = None \<longrightarrow> replaceSTLWithOBJ s = s) \<and>
   replaceSTLWithOBJ ''arm.Stl'' = ''arm.Stl'' \<and>
   replaceSTLWithOBJ (replaceSTLWithOBJ s) = replaceSTLWithOBJ s"
proof -
  have eq: "replaceSTLWithOBJ s = replace_extensions s" for s
    by (simp add: replaceSTLWithOBJ_subst two_passes)
  have clean: "\<forall>q. take 4 (drop q (replace_extensions s)) \<noteq> ''.stl'' \<and>
        take 4 (drop q (replace_extensions s)) \<noteq> ''.STL''" for s
    using replace_extensions_clean by blast
  have f1: "string_find (replace_extensions s) ''.stl'' pos = None"
  proof (rule string_find_absent)
    show "\<forall>q. take (length ''.stl'') (drop q (replace_extensions s)) \<noteq> ''.stl''"
      unfolding length_extension using clean by blast
  qed
  have f2: "string_find (replace_extensions s) ''.STL'' pos = None"
  proof (rule string_find_absent)
    show "\<forall>q. take (length ''.STL'') (drop q (replace_extensions s)) \<noteq> ''.STL''"
      unfolding length_extension using clean by blast
  qed
  have keep: "replace_extensions s = s"
    if none: "string_find s ''.stl'' 0 = None \<and> string_find s ''.STL'' 0 = None"
  proof (rule replace_extensions_unchanged, rule allI)
    fix q
    from none have n1: "string_find s ''.stl'' 0 = None" and n2: "string_find s ''.STL'' 0 = None"
      by simp_all
    have a: "take (length ''.stl'') (drop q s) \<noteq> ''.stl''"
      by (rule string_find_None[OF n1]) simp_all
    have b: "take (length ''.STL'') (drop q s) \<noteq> ''.STL''"
      by (rule string_find_None[OF n2]) simp_all
    from a b show "take 4 (drop q s) \<noteq> ''.stl'' \<and> take 4 (drop q s) \<noteq> ''.STL''"
      unfolding length_extension by blast
  qed
  have mixed: "replace_extensions ''arm.Stl'' = ''arm.Stl''"
    by simp
  have idem: "replace_extensions (replace_extensions s) = replace_extensions s"
    by (rule replace_extensions_unchanged) (rule clean)
  have occ: "\<forall>q. take 4 (drop q s) = ''.stl'' \<or> take 4 (drop q s) = ''.STL'' \<longrightarrow>
        take 4 (drop q (replace_extensions s)) = ''.obj''"
    using replace_extensions_occurrence by blast
  have other: "\<forall>i<length s.
      (\<forall>q. q \<le> i \<and> i < q + 4 \<longrightarrow> take 4 (drop q s) \<noteq> ''.stl'' \<and> take 4 (drop q s) \<noteq> ''.STL'') \<longrightarrow>
      replace_extensions s ! i = s ! i"
    using replace_extensions_other by blast
  show ?thesis
    unfolding eq
    using length_replace_extensions[of s] clean[of s] f1 f2 keep mixed idem occ other
    by (intro conjI) blast+
qed

theorem replaceSTLWithOBJ_replaces_extensions_witness:
  "string_find ''meshes/link.dae'' ''.stl'' 0 = None \<and>
   string_find ''meshes/link.dae'' ''.STL'' 0 = None \<and>
   replaceSTLWithOBJ ''meshes/link.dae'' = ''meshes/link.dae'' \<and>
   replaceSTLWithOBJ ''a.stl.STL.Stl.st.stl'' = ''a.obj.obj.Stl.st.obj''"
proof -
  have a: "string_find ''meshes/link.dae'' ''.stl'' 0 = None \<and>
           string_find ''meshes/link.dae'' ''.STL'' 0 = None"
    by (simp add: string_find_def)
  with replaceSTLWithOBJ_replaces_extensions[of "''meshes/link.dae''"]
  have "replaceSTLWithOBJ ''meshes/link.dae'' = ''meshes/link.dae''" by blast
  moreover from replaceSTLWithOBJ_replaces_extensions[of "''a.stl.STL.Stl.st.stl''"]
  have "replaceSTLWithOBJ ''a.stl.STL.Stl.st.stl'' = replace_extensions ''a.stl.STL.Stl.st.stl''"
    by blast
  then have "replaceSTLWithOBJ ''a.stl.STL.Stl.st.stl'' = ''a.obj.obj.Stl.st.obj''"
    by simp
  ultimately show ?thesis using a by simp
qed

end
